theory Spec2Isabelle
  imports Main "HOL-Library.Sublist"
begin

section \<open>Python values, exceptions and observable events\<close>

text \<open>
  The script \<^verbatim>\<open>web_driver.py\<close> is one class, \<^verbatim>\<open>EdgeDriverLocal\<close>, and a top-level
  block that drives it. Everything the class does is an effect on the outside world
  (registry, HTTP, the file system, a browser driver process, the O365 mail library), so
  the embedding threads an explicit state through every method: the instance dictionary
  of the object (\<^verbatim>\<open>self.__dict__\<close>) and the trace of effects performed so far. The outside
  world is a record of oracles; each oracle sees the trace of everything that happened
  before the call, so the same call may answer differently at different times (the smoke
  test fails before a download and passes after it).

  Values are the JSON-shaped values the script handles. A number that is not an integer
  and any library object are opaque (\<open>PObj\<close>).
\<close>

datatype pyval =
    PNone
  | PBool bool
  | PInt int
  | PStr string
  | PList "pyval list"
  | PDict "(string \<times> pyval) list"
  | PObj string

text \<open>
  Exceptions. \<open>EnvError\<close> stands for every exception a library call raises
  (\<^verbatim>\<open>OSError\<close>, \<^verbatim>\<open>requests.RequestException\<close>, \<^verbatim>\<open>BadZipFile\<close>,
  \<^verbatim>\<open>WebDriverException\<close>, \<^verbatim>\<open>json.JSONDecodeError\<close>, ...); all of them derive
  from \<^verbatim>\<open>Exception\<close>. \<open>SystemExit\<close> is what the builtin \<^verbatim>\<open>exit()\<close> raises; it derives
  from \<^verbatim>\<open>BaseException\<close> only, so \<^verbatim>\<open>except Exception\<close> does not catch it.
\<close>

datatype exn =
    AttributeError string
  | KeyError string
  | TypeError string
  | IndexError
  | EnvError string
  | SystemExit "int option"

fun catchable :: "exn \<Rightarrow> bool" where
  "catchable (SystemExit c) = False"
| "catchable e = True"

text \<open>
  A log line keeps the f-string's template and the values put into it, rather than the
  formatted text: \<open>StrOf e\<close> is \<^verbatim>\<open>str(e)\<close> and \<open>TracebackOf e\<close> is
  \<^verbatim>\<open>traceback.format_exc()\<close> while \<open>e\<close> is being handled.
\<close>

datatype logarg = Val pyval | StrOf exn | TracebackOf exn

datatype level = Debug | Info | Warning | Error

datatype event =
    Enter string
  | Print string string "logarg list"
  | LogRec level string "logarg list"
  | RegQuery
  | OpenRead pyval
  | HttpGet pyval
  | Extractall string
  | EdgeStart pyval
  | Sleep
  | EdgeClose
  | O365 string "pyval list"
  | Copy2 pyval pyval

record response =
  status_code :: int
  content :: string
  body_text :: string

text \<open>
  \<^verbatim>\<open>Response.ok\<close> of the requests library: true unless \<^verbatim>\<open>raise_for_status()\<close> would
  raise, which it does for the status codes 400 to 599.
\<close>

definition ok :: "response \<Rightarrow> bool" where
  "ok r = (\<not> (400 \<le> status_code r \<and> status_code r < 600))"

text \<open>
  The outside world. Every oracle answers \<open>Inl msg\<close> when the library call raises.
  \<^item> \<open>winreg_version\<close>: \<^verbatim>\<open>winreg.OpenKey\<close> and \<^verbatim>\<open>QueryValueEx(key, "version")[0]\<close>;
  \<^item> \<open>json_load\<close>: \<^verbatim>\<open>open(path)\<close> and \<^verbatim>\<open>json.load\<close>;
  \<^item> \<open>requests_get\<close>: \<^verbatim>\<open>requests.get(url)\<close>;
  \<^item> \<open>extractall\<close>: \<^verbatim>\<open>zipfile.ZipFile(io.BytesIO(content)).extractall()\<close>;
  \<^item> \<open>webdriver_Edge\<close>, \<open>driver_close\<close>: launching and closing the driver process;
  \<^item> \<open>xmltodict_parse\<close>: \<^verbatim>\<open>xmltodict.parse\<close> followed by the script's
    \<^verbatim>\<open>json.dumps\<close>/\<^verbatim>\<open>json.loads\<close> round trip;
  \<^item> \<open>o365\<close>: one call into the O365 library, named by the operation;
  \<^item> \<open>shutil_copy2\<close>: \<^verbatim>\<open>shutil.copy2(src, dst)\<close>.
\<close>

record env =
  winreg_version :: "event list \<Rightarrow> string + string"
  json_load :: "event list \<Rightarrow> pyval \<Rightarrow> string + pyval"
  requests_get :: "event list \<Rightarrow> pyval \<Rightarrow> string + response"
  extractall :: "event list \<Rightarrow> string \<Rightarrow> string + unit"
  webdriver_Edge :: "event list \<Rightarrow> pyval \<Rightarrow> string + unit"
  driver_close :: "event list \<Rightarrow> string + unit"
  xmltodict_parse :: "string \<Rightarrow> string + pyval"
  o365 :: "event list \<Rightarrow> string \<Rightarrow> pyval list \<Rightarrow> string + pyval"
  shutil_copy2 :: "event list \<Rightarrow> pyval \<Rightarrow> pyval \<Rightarrow> string + unit"

record state =
  attrs :: "string \<rightharpoonup> pyval"
  trace :: "event list"

type_synonym 'a m = "state \<Rightarrow> (exn + 'a) \<times> state"

section \<open>Sequencing, raising and catching\<close>

definition ret :: "'a \<Rightarrow> 'a m" where
  "ret x w = (Inr x, w)"

definition raise :: "exn \<Rightarrow> 'a m" where
  "raise e w = (Inl e, w)"

definition sbind :: "'a m \<Rightarrow> ('a \<Rightarrow> 'b m) \<Rightarrow> 'b m" where
  "sbind f g w = (case f w of (Inl e, w') \<Rightarrow> (Inl e, w') | (Inr x, w') \<Rightarrow> g x w')"

definition lift :: "exn + 'a \<Rightarrow> 'a m" where
  "lift r w = (r, w)"

text \<open>\<^verbatim>\<open>try: body  except Exception as e: handler\<close>\<close>

definition try_except :: "'a m \<Rightarrow> (exn \<Rightarrow> 'a m) \<Rightarrow> 'a m" where
  "try_except body handler w =
     (case body w of
        (Inl e, w') \<Rightarrow> if catchable e then handler e w' else (Inl e, w')
      | (Inr x, w') \<Rightarrow> (Inr x, w'))"

definition emit :: "event \<Rightarrow> state \<Rightarrow> state" where
  "emit ev w = w\<lparr>trace := trace w @ [ev]\<rparr>"

definition enter :: "string \<Rightarrow> unit m" where
  "enter name w = (Inr (), emit (Enter name) w)"

definition effect :: "event \<Rightarrow> unit m" where
  "effect ev w = (Inr (), emit ev w)"

text \<open>A library call: the oracle sees the trace so far, and the call is recorded.\<close>

definition extern :: "(event list \<Rightarrow> string + 'a) \<Rightarrow> event \<Rightarrow> 'a m" where
  "extern oracle ev w =
     (case oracle (trace w) of
        Inl msg \<Rightarrow> (Inl (EnvError msg), emit ev w)
      | Inr x \<Rightarrow> (Inr x, emit ev w))"

section \<open>Attributes of the object\<close>

text \<open>
  The class body assigns \<^verbatim>\<open>PATH_OF_PROPERTIES\<close>, \<^verbatim>\<open>today_datetime\<close>, \<^verbatim>\<open>today\<close>,
  \<^verbatim>\<open>LOG_FORMAT\<close> and \<^verbatim>\<open>logger\<close>, and defines the methods. An attribute read looks
  in the instance dictionary first, then in the class, and raises
  \<^verbatim>\<open>AttributeError\<close> otherwise.
\<close>

definition class_attrs :: "string \<rightharpoonup> pyval" where
  "class_attrs = map_of
     [(''PATH_OF_PROPERTIES'', PStr ''properties.json''),
      (''today_datetime'', PObj ''datetime''),
      (''today'', PObj ''str''),
      (''LOG_FORMAT'', PStr ''%(levelname)s %(asctime)s - %(message)s''),
      (''logger'', PObj ''Logger''),
      (''__init__'', PObj ''method''),
      (''_get_edge_version'', PObj ''method''),
      (''download'', PObj ''method''),
      (''test'', PObj ''method''),
      (''try_another_version'', PObj ''method''),
      (''print_and_log'', PObj ''method''),
      (''send_mail'', PObj ''method''),
      (''import_data'', PObj ''method''),
      (''copy_to_path'', PObj ''method'')]"

definition getattr :: "string \<Rightarrow> pyval m" where
  "getattr a w =
     (case attrs w a of
        Some v \<Rightarrow> (Inr v, w)
      | None \<Rightarrow>
          (case class_attrs a of
             Some v \<Rightarrow> (Inr v, w)
           | None \<Rightarrow> (Inl (AttributeError a), w)))"

definition setattr :: "string \<Rightarrow> pyval \<Rightarrow> unit m" where
  "setattr a v w = (Inr (), w\<lparr>attrs := (attrs w)(a \<mapsto> v)\<rparr>)"

section \<open>Operations on values\<close>

text \<open>\<^verbatim>\<open>d.get(k)\<close>: only a dict has the method.\<close>

fun dict_get :: "pyval \<Rightarrow> string \<Rightarrow> exn + pyval" where
  "dict_get (PDict kvs) k = (case map_of kvs k of Some v \<Rightarrow> Inr v | None \<Rightarrow> Inr PNone)"
| "dict_get v k = Inl (AttributeError ''get'')"

text \<open>\<^verbatim>\<open>d[k]\<close> with a string key.\<close>

fun subscript :: "pyval \<Rightarrow> string \<Rightarrow> exn + pyval" where
  "subscript (PDict kvs) k = (case map_of kvs k of Some v \<Rightarrow> Inr v | None \<Rightarrow> Inl (KeyError k))"
| "subscript v k = Inl (TypeError ''subscript'')"

text \<open>\<^verbatim>\<open>for u in v\<close>: a list gives its items, a dict its keys, a string its characters.\<close>

fun py_iter :: "pyval \<Rightarrow> exn + pyval list" where
  "py_iter (PList xs) = Inr xs"
| "py_iter (PDict kvs) = Inr (map (\<lambda>kv. PStr (fst kv)) kvs)"
| "py_iter (PStr s) = Inr (map (\<lambda>c. PStr [c]) s)"
| "py_iter v = Inl (TypeError ''iter'')"

text \<open>\<^verbatim>\<open>s.split(sep)\<close> for a one-character separator: never empty.\<close>

fun split :: "char \<Rightarrow> string \<Rightarrow> string list" where
  "split sep [] = [[]]"
| "split sep (c # cs) =
     (if c = sep then [] # split sep cs
      else (case split sep cs of [] \<Rightarrow> [[c]] | p # ps \<Rightarrow> (c # p) # ps))"

fun str_split :: "pyval \<Rightarrow> exn + string list" where
  "str_split (PStr s) = Inr (split CHR ''.'' s)"
| "str_split v = Inl (AttributeError ''split'')"

fun item0 :: "string list \<Rightarrow> exn + string" where
  "item0 [] = Inl IndexError"
| "item0 (p # ps) = Inr p"

text \<open>
  \<^verbatim>\<open>a in b\<close>: substring when \<open>b\<close> is a string (then \<open>a\<close> must be one too), membership
  in a list, key membership in a dict.
\<close>

fun py_in :: "pyval \<Rightarrow> pyval \<Rightarrow> exn + bool" where
  "py_in (PStr a) (PStr b) = Inr (sublist a b)"
| "py_in a (PStr b) = Inl (TypeError ''in'')"
| "py_in a (PList xs) = Inr (a \<in> set xs)"
| "py_in (PStr a) (PDict kvs) = Inr (a \<in> fst ` set kvs)"
| "py_in a (PDict kvs) = Inr False"
| "py_in a b = Inl (TypeError ''in'')"

definition ebind :: "exn + 'a \<Rightarrow> ('a \<Rightarrow> exn + 'b) \<Rightarrow> exn + 'b" where
  "ebind r f = (case r of Inl e \<Rightarrow> Inl e | Inr x \<Rightarrow> f x)"

fun truthy :: "pyval \<Rightarrow> bool" where
  "truthy PNone = False"
| "truthy (PBool b) = b"
| "truthy (PInt i) = (i \<noteq> 0)"
| "truthy (PStr s) = (s \<noteq> [])"
| "truthy (PList xs) = (xs \<noteq> [])"
| "truthy (PDict kvs) = (kvs \<noteq> [])"
| "truthy (PObj s) = True"

section \<open>The methods of \<^verbatim>\<open>EdgeDriverLocal\<close>\<close>

subsection \<open>\<^verbatim>\<open>print_and_log\<close>\<close>

text \<open>
  One line on the console, tagged with the upper-cased \<^verbatim>\<open>log_type\<close>, and one record for
  the logger, whose level the if-chain picks: anything but \<^verbatim>\<open>info\<close>, \<^verbatim>\<open>warning\<close> and
  \<^verbatim>\<open>error\<close> is logged at debug level. The default \<^verbatim>\<open>log_type\<close> is \<^verbatim>\<open>"debug"\<close>.
\<close>

definition level_of :: "string \<Rightarrow> level" where
  "level_of log_type =
     (if log_type = ''info'' then Info
      else if log_type = ''warning'' then Warning
      else if log_type = ''error'' then Error
      else Debug)"

definition print_and_log :: "string \<Rightarrow> logarg list \<Rightarrow> string \<Rightarrow> unit m" where
  "print_and_log message args log_type =
     sbind (effect (Print log_type message args)) (\<lambda>_.
     effect (LogRec (level_of log_type) message args))"

subsection \<open>\<^verbatim>\<open>send_mail\<close>\<close>

definition lib :: "env \<Rightarrow> string \<Rightarrow> pyval list \<Rightarrow> pyval m" where
  "lib env name args = extern (\<lambda>tr. o365 env tr name args) (O365 name args)"

text \<open>
  The body of the \<^verbatim>\<open>try\<close>. The message and the subject are set on the message object
  by the call named \<open>compose\<close>; the call named \<open>send\<close> is \<^verbatim>\<open>m.send()\<close>.
\<close>

definition send_mail_body :: "env \<Rightarrow> string \<Rightarrow> logarg list \<Rightarrow> string \<Rightarrow> unit m" where
  "send_mail_body env message margs subject =
     sbind (getattr ''CLIENT_ID'') (\<lambda>client_id.
     sbind (getattr ''token_mail'') (\<lambda>token.
     sbind (getattr ''TENANT_ID'') (\<lambda>tenant.
     sbind (lib env ''Account'' [client_id, token, tenant]) (\<lambda>_.
     sbind (getattr ''CURRENT_PATH'') (\<lambda>path.
     sbind (lib env ''FileSystemTokenBackend'' [path]) (\<lambda>token_backend.
     sbind (lib env ''Account'' [client_id, token, token_backend]) (\<lambda>account.
     sbind (lib env ''is_authenticated'' [account]) (\<lambda>authenticated.
     sbind (if \<not> truthy authenticated then
              sbind (getattr ''TENANT_ID'') (\<lambda>tenant2.
              sbind (lib env ''Account'' [client_id, token, tenant2]) (\<lambda>account2.
              sbind (lib env ''authenticate'' [account2]) (\<lambda>_.
              print_and_log ''Authenticated'' [] ''debug'')))
            else ret ()) (\<lambda>_.
     sbind (getattr ''user_mail'') (\<lambda>user.
     sbind (lib env ''MSGraphProtocol'' [PStr ''beta'', user]) (\<lambda>my_protocol.
     sbind (lib env ''Account'' [client_id, token, my_protocol]) (\<lambda>account3.
     sbind (lib env ''new_message'' [account3]) (\<lambda>msg.
     sbind (getattr ''EMAILS_TO_REPORT'') (\<lambda>recipients.
     sbind (lib env ''to.add'' [msg, recipients]) (\<lambda>_.
     sbind (getattr ''today_datetime'') (\<lambda>now.
     sbind (lib env ''compose'' [msg, PStr subject, now, PStr message]) (\<lambda>_.
     sbind (lib env ''send'' [msg]) (\<lambda>_.
     ret ()))))))))))))))))))"

definition send_mail :: "env \<Rightarrow> string \<Rightarrow> logarg list \<Rightarrow> string \<Rightarrow> unit m" where
  "send_mail env message margs subject =
     sbind (enter ''send_mail'') (\<lambda>_.
     try_except (send_mail_body env message margs subject) (\<lambda>e.
       sbind (print_and_log ''{}'' [StrOf e] ''debug'') (\<lambda>_.
       print_and_log ''{}'' [TracebackOf e] ''debug'')))"

subsection \<open>\<^verbatim>\<open>_get_edge_version\<close> and \<^verbatim>\<open>import_data\<close>\<close>

text \<open>No \<^verbatim>\<open>try\<close> here: what the registry raises goes to the caller.\<close>

definition get_edge_version :: "env \<Rightarrow> string m" where
  "get_edge_version env =
     sbind (enter ''_get_edge_version'') (\<lambda>_.
     extern (winreg_version env) RegQuery)"

text \<open>
  The handler logs, calls \<^verbatim>\<open>send_mail\<close> and falls off the end of the method, so the
  method returns \<^verbatim>\<open>None\<close>. (The mail texts are Spanish in the source; the accented
  letter of one of them is written without its accent here.)
\<close>

definition import_data :: "env \<Rightarrow> pyval m" where
  "import_data env =
     sbind (enter ''import_data'') (\<lambda>_.
     try_except
       (sbind (getattr ''PATH_OF_PROPERTIES'') (\<lambda>path.
        extern (\<lambda>tr. json_load env tr path) (OpenRead path)))
       (\<lambda>e.
        sbind (print_and_log ''Log error of version, notiftying via mail...'' [] ''debug'') (\<lambda>_.
        sbind (send_mail env
                 ''No se pudo descargar ninguna version del driver, por favor, reviselo manualmente. Error: {}''
                 [StrOf e] ''Error cargando archivo de propiedades'') (\<lambda>_.
        ret PNone))))"

subsection \<open>\<^verbatim>\<open>__init__\<close>\<close>

definition load_prop :: "pyval \<Rightarrow> string \<Rightarrow> string \<Rightarrow> unit m" where
  "load_prop properties key attr =
     sbind (lift (dict_get properties key)) (\<lambda>v. setattr attr v)"

definition matched_url :: "string \<Rightarrow> string \<Rightarrow> string" where
  "matched_url version os_type =
     ''https://msedgewebdriverstorage.blob.core.windows.net/edgewebdriver/''
       @ version @ ''/edgedriver_'' @ os_type @ ''.zip''"

definition init :: "env \<Rightarrow> string \<Rightarrow> unit m" where
  "init env os_type =
     sbind (enter ''__init__'') (\<lambda>_.
     sbind (get_edge_version env) (\<lambda>version.
     sbind (setattr ''version'' (PStr version)) (\<lambda>_.
     sbind (setattr ''os_type'' (PStr os_type)) (\<lambda>_.
     sbind (setattr ''url'' (PStr (matched_url version os_type))) (\<lambda>_.
     sbind (import_data env) (\<lambda>properties.
     sbind (load_prop properties ''driver_name'' ''DRIVER_NAME'') (\<lambda>_.
     sbind (load_prop properties ''base_url'' ''BASE_URL'') (\<lambda>_.
     sbind (load_prop properties ''emails_to_report'' ''EMAILS_TO_REPORT'') (\<lambda>_.
     sbind (load_prop properties ''current_path'' ''CURRENT_PATH'') (\<lambda>_.
     sbind (load_prop properties ''token_id'' ''TOKEN_ID'') (\<lambda>_.
     sbind (load_prop properties ''host'' ''HOST'') (\<lambda>_.
     sbind (load_prop properties ''tenant_id'' ''TENANT_ID'') (\<lambda>_.
     sbind (load_prop properties ''client_id'' ''CLIENT_ID'') (\<lambda>_.
     sbind (print_and_log (replicate 40 CHR ''*'') [] ''info'') (\<lambda>_.
     sbind (print_and_log ''Driver Manager Started'' [] ''info'') (\<lambda>_.
     sbind (print_and_log (replicate 40 CHR ''*'') [] ''info'') (\<lambda>_.
     sbind (getattr ''version'') (\<lambda>v.
     sbind (getattr ''os_type'') (\<lambda>t.
     print_and_log ''Edge version: {} OStype: {}'' [Val v, Val t] ''debug'')))))))))))))))))))"

subsection \<open>\<^verbatim>\<open>download\<close>\<close>

definition download_body :: "env \<Rightarrow> bool m" where
  "download_body env =
     sbind (getattr ''url'') (\<lambda>url0.
     sbind (print_and_log ''Download started with url: {}'' [Val url0] ''info'') (\<lambda>_.
     sbind (getattr ''url'') (\<lambda>url.
     sbind (extern (\<lambda>tr. requests_get env tr url) (HttpGet url)) (\<lambda>r.
     if status_code r = 200 then
       sbind (extern (\<lambda>tr. extractall env tr (content r)) (Extractall (content r))) (\<lambda>_.
       sbind (print_and_log ''Download finished with status: {}'' [Val (PBool (ok r))] ''info'') (\<lambda>_.
       ret (ok r)))
     else
       sbind (getattr ''url'') (\<lambda>url1.
       sbind (print_and_log ''Not found : {}'' [Val url1] ''warning'') (\<lambda>_.
       ret False))))))"

definition download :: "env \<Rightarrow> bool m" where
  "download env =
     sbind (enter ''download'') (\<lambda>_.
     try_except (download_body env) (\<lambda>e.
       sbind (getattr ''url'') (\<lambda>url.
       sbind (print_and_log ''Download failed with with url: {}'' [Val url] ''error'') (\<lambda>_.
       sbind (print_and_log ''{}'' [StrOf e] ''debug'') (\<lambda>_.
       sbind (print_and_log ''{}'' [TracebackOf e] ''debug'') (\<lambda>_.
       ret False))))))"

subsection \<open>\<^verbatim>\<open>test\<close>\<close>

definition test_body :: "env \<Rightarrow> bool m" where
  "test_body env =
     sbind (print_and_log ''Testing started'' [] ''info'') (\<lambda>_.
     sbind (getattr ''DRIVER_NAME'') (\<lambda>driver_name.
     sbind (extern (\<lambda>tr. webdriver_Edge env tr driver_name) (EdgeStart driver_name)) (\<lambda>_.
     sbind (effect Sleep) (\<lambda>_.
     sbind (extern (driver_close env) EdgeClose) (\<lambda>_.
     sbind (print_and_log ''Testing finished succesfully'' [] ''info'') (\<lambda>_.
     ret True))))))"

definition test :: "env \<Rightarrow> bool m" where
  "test env =
     sbind (enter ''test'') (\<lambda>_.
     try_except (test_body env) (\<lambda>e.
       sbind (print_and_log ''Test failed, have to try another driver version...'' [] ''warning'') (\<lambda>_.
       sbind (print_and_log ''{}'' [StrOf e] ''debug'') (\<lambda>_.
       sbind (print_and_log ''{}'' [TracebackOf e] ''debug'') (\<lambda>_.
       ret False)))))"

subsection \<open>\<^verbatim>\<open>try_another_version\<close>\<close>

text \<open>
  The condition of the list comprehension, for one item \<open>u\<close> of the listing:
  \<^verbatim>\<open>u["Name"].split(".")[0] == self.version.split(".")[0] and self.os_type in u["Name"]\<close>.
  \<^verbatim>\<open>and\<close> evaluates its right operand only when the left one is true.
\<close>

definition matches :: "pyval \<Rightarrow> bool m" where
  "matches u =
     sbind (lift (subscript u ''Name'')) (\<lambda>name.
     sbind (lift (ebind (str_split name) item0)) (\<lambda>major.
     sbind (getattr ''version'') (\<lambda>version.
     sbind (lift (ebind (str_split version) item0)) (\<lambda>local_major.
     if major = local_major then
       sbind (getattr ''os_type'') (\<lambda>os_type.
       sbind (lift (subscript u ''Name'')) (\<lambda>name2.
       lift (py_in os_type name2)))
     else ret False))))"

fun list_urls :: "pyval list \<Rightarrow> pyval list m" where
  "list_urls [] w = (Inr [], w)"
| "list_urls (u # us) w =
     (case matches u w of
        (Inl e, w') \<Rightarrow> (Inl e, w')
      | (Inr keep, w') \<Rightarrow>
          (case list_urls us w' of
             (Inl e, w'') \<Rightarrow> (Inl e, w'')
           | (Inr rest, w'') \<Rightarrow> (Inr (if keep then u # rest else rest), w'')))"

text \<open>\<^verbatim>\<open>results.get("EnumerationResults").get("Blobs").get("Blob")\<close>\<close>

definition blobs :: "pyval \<Rightarrow> exn + pyval" where
  "blobs results =
     ebind (ebind (dict_get results ''EnumerationResults'') (\<lambda>r. dict_get r ''Blobs''))
       (\<lambda>b. dict_get b ''Blob'')"

text \<open>
  Fetching the index and filtering it: everything of the \<^verbatim>\<open>try\<close> block before the
  \<^verbatim>\<open>for\<close> loop.
\<close>

definition scan :: "env \<Rightarrow> pyval list m" where
  "scan env =
     sbind (print_and_log ''Downloading another version started'' [] ''info'') (\<lambda>_.
     sbind (getattr ''BASE_URL'') (\<lambda>base_url.
     sbind (extern (\<lambda>tr. requests_get env tr base_url) (HttpGet base_url)) (\<lambda>res.
     sbind (lift (case xmltodict_parse env (body_text res) of
                    Inl msg \<Rightarrow> Inl (EnvError msg) | Inr obj \<Rightarrow> Inr obj)) (\<lambda>results.
     sbind (lift (blobs results)) (\<lambda>urls.
     sbind (lift (py_iter urls)) (\<lambda>items.
     list_urls items))))))"

text \<open>
  The body of the \<^verbatim>\<open>for\<close> loop for one candidate: \<open>True\<close> when the loop returns
  \<^verbatim>\<open>True\<close> from the method, \<open>False\<close> when it goes on to the next candidate.
\<close>

definition attempt :: "env \<Rightarrow> pyval \<Rightarrow> bool m" where
  "attempt env obj =
     sbind (print_and_log ''{}'' [Val obj] ''debug'') (\<lambda>_.
     sbind (lift (dict_get obj ''Url'')) (\<lambda>url.
     sbind (setattr ''url'' url) (\<lambda>_.
     sbind (download env) (\<lambda>download_status.
     if download_status then
       sbind (test env) (\<lambda>test_status.
       if test_status then
         sbind (getattr ''url'') (\<lambda>url1.
         sbind (print_and_log
                  ''Download finished and working of another version with url: {}''
                  [Val url1] ''info'') (\<lambda>_.
         sbind (lift (dict_get obj ''Name'')) (\<lambda>version.
         sbind (print_and_log ''version: {}'' [Val version] ''debug'') (\<lambda>_.
         ret True))))
       else ret False)
     else ret False))))"

fun try_loop :: "env \<Rightarrow> pyval list \<Rightarrow> bool m" where
  "try_loop env [] w = (Inr False, w)"
| "try_loop env (obj # rest) w =
     (case attempt env obj w of
        (Inl e, w') \<Rightarrow> (Inl e, w')
      | (Inr True, w') \<Rightarrow> (Inr True, w')
      | (Inr False, w') \<Rightarrow> try_loop env rest w')"

definition try_another_version :: "env \<Rightarrow> bool m" where
  "try_another_version env =
     sbind (enter ''try_another_version'') (\<lambda>_.
     try_except (sbind (scan env) (try_loop env)) (\<lambda>e.
       sbind (print_and_log ''{}'' [StrOf e] ''debug'') (\<lambda>_.
       sbind (print_and_log ''{}'' [TracebackOf e] ''debug'') (\<lambda>_.
       sbind (print_and_log ''Error downloading the alternative version'' [] ''error'') (\<lambda>_.
       sbind (send_mail env
                ''Fallo la descarga de otra version del driver, por favor revise manualmente. Error{}''
                [StrOf e] ''Error en descarga de Driver alternativo a version actual'') (\<lambda>_.
       ret False))))))"

subsection \<open>\<^verbatim>\<open>copy_to_path\<close>\<close>

definition copy_one :: "env \<Rightarrow> pyval \<Rightarrow> unit m" where
  "copy_one env folder =
     sbind (getattr ''DRIVER_NAME'') (\<lambda>driver_name.
     extern (\<lambda>tr. shutil_copy2 env tr driver_name folder) (Copy2 driver_name folder))"

fun copy_loop :: "env \<Rightarrow> pyval list \<Rightarrow> unit m" where
  "copy_loop env [] w = (Inr (), w)"
| "copy_loop env (folder # rest) w =
     (case copy_one env folder w of
        (Inl e, w') \<Rightarrow> (Inl e, w')
      | (Inr u, w') \<Rightarrow> copy_loop env rest w')"

definition copy_to_path :: "env \<Rightarrow> unit m" where
  "copy_to_path env =
     sbind (enter ''copy_to_path'') (\<lambda>_.
     sbind (getattr ''BOT_FOLDERS'') (\<lambda>folders.
     sbind (lift (py_iter folders)) (\<lambda>items.
     sbind (copy_loop env items) (\<lambda>_.
     sbind (getattr ''BOT_FOLDERS'') (\<lambda>folders2.
     print_and_log ''Copied to folders: {}'' [Val folders2] ''debug'')))))"

section \<open>The top-level block\<close>

text \<open>
  \<^verbatim>\<open>exit()\<close> with no argument raises \<^verbatim>\<open>SystemExit(None)\<close>. The block runs on a new
  object: no instance attribute, nothing done yet.
\<close>

definition main :: "env \<Rightarrow> unit m" where
  "main env =
     sbind (init env ''win64'') (\<lambda>_.
     sbind (test env) (\<lambda>t1.
     sbind (if \<not> t1 then
              sbind (download env) (\<lambda>_.
              sbind (test env) (\<lambda>t2.
              if \<not> t2 then
                sbind (try_another_version env) (\<lambda>status.
                if \<not> status then
                  sbind (print_and_log ''Log error of version, notiftying via mail...'' [] ''debug'') (\<lambda>_.
                  sbind (send_mail env
                           ''No se pudo descargar ninguna version del driver, por favor, reviselo manualmente. ''
                           [] ''Error en driver'') (\<lambda>_.
                  raise (SystemExit None)))
                else copy_to_path env)
              else copy_to_path env))
            else ret ()) (\<lambda>_.
     print_and_log ''Driver working, all right'' [] ''debug'')))"

definition fresh :: state where
  "fresh = \<lparr>attrs = Map.empty, trace = []\<rparr>"

definition run :: "env \<Rightarrow> (exn + unit) \<times> state" where
  "run env = main env fresh"

text \<open>
  The exit status of the interpreter: 0 when the script runs to its end, the code of a
  \<^verbatim>\<open>SystemExit\<close> (0 when the code is \<^verbatim>\<open>None\<close>), and 1, after the traceback, for any
  other exception that nothing caught.
\<close>

fun exit_status :: "exn + unit \<Rightarrow> int" where
  "exit_status (Inr u) = 0"
| "exit_status (Inl (SystemExit None)) = 0"
| "exit_status (Inl (SystemExit (Some code))) = code"
| "exit_status (Inl e) = 1"

section \<open>Reading a trace\<close>

definition invoked :: "string \<Rightarrow> event list \<Rightarrow> nat" where
  "invoked name tr = length (filter (\<lambda>ev. ev = Enter name) tr)"

fun is_HttpGet :: "event \<Rightarrow> bool" where
  "is_HttpGet (HttpGet url) = True"
| "is_HttpGet ev = False"

definition http_gets :: "event list \<Rightarrow> event list" where
  "http_gets tr = filter is_HttpGet tr"

fun is_O365 :: "event \<Rightarrow> bool" where
  "is_O365 (O365 name args) = True"
| "is_O365 ev = False"

definition mail_calls :: "event list \<Rightarrow> event list" where
  "mail_calls tr = filter is_O365 tr"

text \<open>The two events of one \<^verbatim>\<open>print_and_log\<close> call.\<close>

definition logs :: "string \<Rightarrow> logarg list \<Rightarrow> string \<Rightarrow> event list" where
  "logs message args log_type =
     [Print log_type message args, LogRec (level_of log_type) message args]"

text \<open>What kind of effect an event is.\<close>

datatype kind = KEnter string | KLog | KReg | KOpen | KHttp | KZip | KDriver | KMail | KCopy

fun kind_of :: "event \<Rightarrow> kind" where
  "kind_of (Enter name) = KEnter name"
| "kind_of (Print l m a) = KLog"
| "kind_of (LogRec l m a) = KLog"
| "kind_of RegQuery = KReg"
| "kind_of (OpenRead p) = KOpen"
| "kind_of (HttpGet u) = KHttp"
| "kind_of (Extractall c) = KZip"
| "kind_of (EdgeStart d) = KDriver"
| "kind_of Sleep = KDriver"
| "kind_of EdgeClose = KDriver"
| "kind_of (O365 n a) = KMail"
| "kind_of (Copy2 a b) = KCopy"

section \<open>Frame conditions and exception safety\<close>

text \<open>
  \<open>step A S w w'\<close>: from \<open>w\<close> to \<open>w'\<close> only the attributes in \<open>A\<close> were assigned, no
  attribute was deleted, and the trace grew by events whose kinds are in \<open>S\<close>.
\<close>

definition step :: "string set \<Rightarrow> kind set \<Rightarrow> state \<Rightarrow> state \<Rightarrow> bool" where
  "step A S w w' =
     ((\<forall>a. a \<notin> A \<longrightarrow> attrs w' a = attrs w a) \<and>
      dom (attrs w) \<subseteq> dom (attrs w') \<and>
      (\<exists>evs. trace w' = trace w @ evs \<and> kind_of ` set evs \<subseteq> S))"

definition preserves :: "(state \<Rightarrow> bool) \<Rightarrow> 'a m \<Rightarrow> bool" where
  "preserves I f = (\<forall>w. I w \<longrightarrow> I (snd (f w)))"

text \<open>\<open>mild f\<close>: whatever \<open>f\<close> raises, \<^verbatim>\<open>except Exception\<close> catches it.\<close>

definition mild :: "'a m \<Rightarrow> bool" where
  "mild f = (\<forall>w e. fst (f w) = Inl e \<longrightarrow> catchable e)"

text \<open>\<open>safe I f\<close>: started in a state where \<open>I\<close> holds, \<open>f\<close> returns a value.\<close>

definition safe :: "(state \<Rightarrow> bool) \<Rightarrow> 'a m \<Rightarrow> bool" where
  "safe I f = (\<forall>w. I w \<longrightarrow> (\<exists>x. fst (f w) = Inr x))"

definition has_url :: "state \<Rightarrow> bool" where
  "has_url w = (attrs w ''url'' \<noteq> None)"

text \<open>The attributes \<^verbatim>\<open>__init__\<close> assigns.\<close>

definition init_names :: "string set" where
  "init_names = {''version'', ''os_type'', ''url'', ''DRIVER_NAME'', ''BASE_URL'',
     ''EMAILS_TO_REPORT'', ''CURRENT_PATH'', ''TOKEN_ID'', ''HOST'', ''TENANT_ID'',
     ''CLIENT_ID''}"

section \<open>The stages of the top-level block\<close>

text \<open>
  The object after the constructor, and the three stages of the escalation ladder as the
  top-level block runs them: the smoke test of the driver already there, the smoke test
  after the download of the matched version, and \<^verbatim>\<open>try_another_version\<close>.
\<close>

definition constructed :: "env \<Rightarrow> (exn + unit) \<times> state" where
  "constructed env = init env ''win64'' fresh"

definition stage1 :: "env \<Rightarrow> (exn + bool) \<times> state" where
  "stage1 env = test env (snd (constructed env))"

definition matched :: "env \<Rightarrow> (exn + bool) \<times> state" where
  "matched env = download env (snd (stage1 env))"

definition stage2 :: "env \<Rightarrow> (exn + bool) \<times> state" where
  "stage2 env = test env (snd (matched env))"

definition stage3 :: "env \<Rightarrow> (exn + bool) \<times> state" where
  "stage3 env = try_another_version env (snd (stage2 env))"

text \<open>
  The states an object can be in: after its constructor returned, and after any call of
  a method on it, whether the call returned or raised.
\<close>

inductive reachable :: "env \<Rightarrow> state \<Rightarrow> bool" for env :: env where
  r_init: "fst (init env os_type fresh) = Inr () \<Longrightarrow> reachable env (snd (init env os_type fresh))"
| r_download: "reachable env w \<Longrightarrow> reachable env (snd (download env w))"
| r_test: "reachable env w \<Longrightarrow> reachable env (snd (test env w))"
| r_try_another_version: "reachable env w \<Longrightarrow> reachable env (snd (try_another_version env w))"
| r_print_and_log: "reachable env w \<Longrightarrow> reachable env (snd (print_and_log message args log_type w))"
| r_send_mail: "reachable env w \<Longrightarrow> reachable env (snd (send_mail env message margs subject w))"
| r_import_data: "reachable env w \<Longrightarrow> reachable env (snd (import_data env w))"
| r_get_edge_version: "reachable env w \<Longrightarrow> reachable env (snd (get_edge_version env w))"
| r_copy_to_path: "reachable env w \<Longrightarrow> reachable env (snd (copy_to_path env w))"

section \<open>Events of the handlers\<close>

text \<open>What a run added to the trace.\<close>

definition added :: "state \<Rightarrow> state \<Rightarrow> event list" where
  "added w w' = drop (length (trace w)) (trace w')"

text \<open>The two lines every \<^verbatim>\<open>except\<close> block logs: \<^verbatim>\<open>str(e)\<close> and the traceback.\<close>

definition handler_logs :: "exn \<Rightarrow> event list" where
  "handler_logs e = logs ''{}'' [StrOf e] ''debug'' @ logs ''{}'' [TracebackOf e] ''debug''"

definition download_started :: "pyval \<Rightarrow> event list" where
  "download_started url =
     Enter ''download'' # logs ''Download started with url: {}'' [Val url] ''info''"

definition download_failed :: "pyval \<Rightarrow> exn \<Rightarrow> event list" where
  "download_failed url e =
     logs ''Download failed with with url: {}'' [Val url] ''error'' @ handler_logs e"

definition test_started :: "event list" where
  "test_started = Enter ''test'' # logs ''Testing started'' [] ''info''"

definition test_failed :: "exn \<Rightarrow> event list" where
  "test_failed e =
     logs ''Test failed, have to try another driver version...'' [] ''warning'' @ handler_logs e"

section \<open>Sample environments\<close>

text \<open>
  A properties file with every key, a registry that knows the browser version, and
  servers that answer. In \<open>env_present\<close> the driver in the working directory launches.
\<close>

definition kvs0 :: "(string \<times> pyval) list" where
  "kvs0 =
     [(''driver_name'', PStr ''msedgedriver.exe''),
      (''base_url'', PStr ''https://index''),
      (''emails_to_report'', PList [PStr ''ops@example.org'']),
      (''current_path'', PStr ''C:/bots''),
      (''token_id'', PStr ''token''),
      (''host'', PStr ''host''),
      (''tenant_id'', PStr ''tenant''),
      (''client_id'', PStr ''client'')]"

definition props0 :: pyval where
  "props0 = PDict kvs0"

definition not_found :: response where
  "not_found = \<lparr>status_code = 404, content = [], body_text = ''BlobNotFound''\<rparr>"

definition archive :: "string \<Rightarrow> response" where
  "archive c = \<lparr>status_code = 200, content = c, body_text = []\<rparr>"

definition env_present :: env where
  "env_present =
     \<lparr>winreg_version = (\<lambda>tr. Inr ''103.0.1264.37''),
      json_load = (\<lambda>tr path. Inr props0),
      requests_get = (\<lambda>tr url. Inr not_found),
      extractall = (\<lambda>tr c. Inr ()),
      webdriver_Edge = (\<lambda>tr d. Inr ()),
      driver_close = (\<lambda>tr. Inr ()),
      xmltodict_parse = (\<lambda>s. Inl ''syntax error''),
      o365 = (\<lambda>tr name args. Inr (PObj name)),
      shutil_copy2 = (\<lambda>tr src dst. Inr ())\<rparr>"

text \<open>
  In \<open>env_matched\<close> the driver launches once an archive has been extracted, and the
  server has the archive of the matched version.
\<close>

definition env_matched :: env where
  "env_matched = env_present
     \<lparr>requests_get := (\<lambda>tr url. Inr (archive ''driver'')),
      webdriver_Edge := (\<lambda>tr d. if KZip \<in> set (map kind_of tr) then Inr () else Inl ''cannot start'')\<rparr>"

text \<open>An object whose \<^verbatim>\<open>url\<close> is set, before anything happened.\<close>

definition w_url :: state where
  "w_url = \<lparr>attrs = [''url'' \<mapsto> PStr ''https://store/103.0.1264.37/edgedriver_win64.zip''], trace = []\<rparr>"

definition init_kinds :: "kind set" where
  "init_kinds = {KEnter ''__init__'', KEnter ''_get_edge_version'', KReg, KEnter ''import_data'',
     KOpen, KEnter ''send_mail'', KLog}"

definition alt_kinds :: "kind set" where
  "alt_kinds = {KEnter ''try_another_version'', KLog, KHttp, KEnter ''download'', KZip,
     KEnter ''test'', KDriver, KEnter ''send_mail''}"

definition init_tr0 :: "event list" where
  "init_tr0 = [Enter ''__init__'', Enter ''_get_edge_version'']"

definition init_tr1 :: "event list" where
  "init_tr1 = init_tr0 @ [RegQuery, Enter ''import_data'']"

definition properties_path :: pyval where
  "properties_path = PStr ''properties.json''"

definition early_attrs :: "string \<Rightarrow> string \<Rightarrow> (string \<rightharpoonup> pyval)" where
  "early_attrs v os_type =
     [''version'' \<mapsto> PStr v, ''os_type'' \<mapsto> PStr os_type,
      ''url'' \<mapsto> PStr (matched_url v os_type)]"

definition prop_of :: "(string \<times> pyval) list \<Rightarrow> string \<Rightarrow> pyval" where
  "prop_of kvs k = (case map_of kvs k of Some x \<Rightarrow> x | None \<Rightarrow> PNone)"

definition init_attrs :: "string \<Rightarrow> string \<Rightarrow> (string \<times> pyval) list \<Rightarrow> (string \<rightharpoonup> pyval)" where
  "init_attrs v os_type kvs =
     (early_attrs v os_type)
       (''DRIVER_NAME'' \<mapsto> prop_of kvs ''driver_name'',
        ''BASE_URL'' \<mapsto> prop_of kvs ''base_url'',
        ''EMAILS_TO_REPORT'' \<mapsto> prop_of kvs ''emails_to_report'',
        ''CURRENT_PATH'' \<mapsto> prop_of kvs ''current_path'',
        ''TOKEN_ID'' \<mapsto> prop_of kvs ''token_id'',
        ''HOST'' \<mapsto> prop_of kvs ''host'',
        ''TENANT_ID'' \<mapsto> prop_of kvs ''tenant_id'',
        ''CLIENT_ID'' \<mapsto> prop_of kvs ''client_id'')"

definition banner :: "string \<Rightarrow> string \<Rightarrow> event list" where
  "banner v os_type =
     logs (replicate 40 CHR ''*'') [] ''info'' @ logs ''Driver Manager Started'' [] ''info'' @
     logs (replicate 40 CHR ''*'') [] ''info'' @
     logs ''Edge version: {} OStype: {}'' [Val (PStr v), Val (PStr os_type)] ''debug''"

definition init_trace :: "string \<Rightarrow> string \<Rightarrow> event list" where
  "init_trace v os_type = init_tr1 @ OpenRead properties_path # banner v os_type"

definition no_properties_trace :: "event list" where
  "no_properties_trace =
     init_tr1 @ OpenRead properties_path #
     logs ''Log error of version, notiftying via mail...'' [] ''debug'' @
     Enter ''send_mail'' # handler_logs (AttributeError ''CLIENT_ID'')"

definition quiet_kinds :: "kind set" where
  "quiet_kinds = - {KMail, KCopy}"

definition gave_up :: "event list" where
  "gave_up = logs ''Log error of version, notiftying via mail...'' [] ''debug'' @
     Enter ''send_mail'' # handler_logs (AttributeError ''token_mail'')"

fun is_dict :: "pyval \<Rightarrow> bool" where
  "is_dict (PDict kvs) = True"
| "is_dict v = False"

fun url_of :: "pyval \<Rightarrow> pyval" where
  "url_of (PDict kvs) = prop_of kvs ''Url''"
| "url_of v = PNone"

definition begin_attempt :: "pyval \<Rightarrow> state \<Rightarrow> state" where
  "begin_attempt obj w =
     w\<lparr>trace := trace w @ logs ''{}'' [Val obj] ''debug'', attrs := (attrs w)(''url'' \<mapsto> url_of obj)\<rparr>"

definition attempt_succeeded :: "pyval \<Rightarrow> event list" where
  "attempt_succeeded obj =
     logs ''Download finished and working of another version with url: {}'' [Val (url_of obj)] ''info'' @
     (case obj of PDict kvs \<Rightarrow> logs ''version: {}'' [Val (prop_of kvs ''Name'')] ''debug'' | _ \<Rightarrow> [])"

text \<open>
  The filter in the words of the specification: the major version is what stands before
  the first dot, an entry is selected when its name has the major version of the local
  browser and contains the OS tag. A listing is well formed when each entry is a mapping
  whose \<^verbatim>\<open>Name\<close> is a string.
\<close>

definition major :: "string \<Rightarrow> string" where
  "major s = takeWhile (\<lambda>c. c \<noteq> CHR ''.'') s"

fun name_of :: "pyval \<Rightarrow> string" where
  "name_of (PDict kvs) = (case map_of kvs ''Name'' of Some (PStr n) \<Rightarrow> n | _ \<Rightarrow> [])"
| "name_of v = []"

definition selected :: "string \<Rightarrow> string \<Rightarrow> pyval \<Rightarrow> bool" where
  "selected version os_type u =
     (major (name_of u) = major version \<and> sublist os_type (name_of u))"

fun entry :: "pyval \<Rightarrow> bool" where
  "entry (PDict kvs) = (case map_of kvs ''Name'' of Some (PStr n) \<Rightarrow> True | _ \<Rightarrow> False)"
| "entry v = False"

definition scan_started :: "event list" where
  "scan_started = logs ''Downloading another version started'' [] ''info''"

text \<open>
  An index with five entries: another major version, another platform, and three builds
  for the local major version and platform. In \<open>env_alt\<close> the server does not have the
  matched version, the driver of the first build does not start, the one of the second
  does. In \<open>env_none\<close> no driver starts.
\<close>

definition entry_of :: "string \<Rightarrow> pyval" where
  "entry_of name = PDict [(''Name'', PStr name), (''Url'', PStr (''https://store/'' @ name))]"

definition listing0 :: "pyval list" where
  "listing0 =
     [entry_of ''102.0.1245.44/edgedriver_win64.zip'',
      entry_of ''103.0.1264.37/edgedriver_linux64.zip'',
      entry_of ''103.0.1264.44/edgedriver_win64.zip'',
      entry_of ''103.0.1264.49/edgedriver_win64.zip'',
      entry_of ''103.0.1264.62/edgedriver_win64.zip'']"

definition index0 :: pyval where
  "index0 = PDict [(''EnumerationResults'', PDict [(''Blobs'', PDict [(''Blob'', PList listing0)])])]"

fun extracted :: "event \<Rightarrow> string list" where
  "extracted (Extractall c) = [c]"
| "extracted ev = []"

definition last_extracted :: "event list \<Rightarrow> string option" where
  "last_extracted tr =
     (let cs = concat (map extracted tr) in if cs = [] then None else Some (last cs))"

definition env_alt :: env where
  "env_alt = env_present
     \<lparr>requests_get := (\<lambda>tr url.
        if url = PStr ''https://index'' then
          Inr \<lparr>status_code = 200, content = [], body_text = ''<EnumerationResults/>''\<rparr>
        else if url = PStr ''https://store/103.0.1264.49/edgedriver_win64.zip'' then
          Inr (archive ''103.0.1264.49'')
        else if url = PStr (matched_url ''103.0.1264.37'' ''win64'') then Inr not_found
        else Inr (archive ''other'')),
      xmltodict_parse := (\<lambda>s. Inr index0),
      webdriver_Edge := (\<lambda>tr d.
        if last_extracted tr = Some ''103.0.1264.49'' then Inr () else Inl ''version mismatch'')\<rparr>"

definition env_none :: env where
  "env_none = env_alt\<lparr>webdriver_Edge := (\<lambda>tr d. Inl ''cannot start'')\<rparr>"

definition scan_failed :: "exn \<Rightarrow> event list" where
  "scan_failed e = handler_logs e @ logs ''Error downloading the alternative version'' [] ''error''"

text \<open>
  In \<open>env_noreg\<close> the registry has no Edge key; in \<open>env_noprops\<close> the properties file is
  missing.
\<close>

definition env_noreg :: env where
  "env_noreg = env_present\<lparr>winreg_version := (\<lambda>tr. Inl ''FileNotFoundError'')\<rparr>"

definition env_noprops :: env where
  "env_noprops = env_present\<lparr>json_load := (\<lambda>tr path. Inl ''No such file or directory'')\<rparr>"

definition stage1_kinds :: "kind set" where
  "stage1_kinds = init_kinds \<union> {KEnter ''test'', KDriver}"

text \<open>
  The method entries of a trace, in order.
\<close>

fun is_Enter :: "event \<Rightarrow> bool" where
  "is_Enter (Enter name) = True"
| "is_Enter ev = False"

definition entries :: "event list \<Rightarrow> event list" where
  "entries tr = filter is_Enter tr"

text \<open>
  The method entries of the loop, described by its guards: each candidate attempted
  enters \<^verbatim>\<open>download\<close>, enters \<^verbatim>\<open>test\<close> after it only when that download returned true,
  and the next candidate is attempted only when the attempt did not return true.
\<close>

fun loop_entries :: "env \<Rightarrow> pyval list \<Rightarrow> state \<Rightarrow> event list" where
  "loop_entries env [] w = []"
| "loop_entries env (c # cs) w =
     Enter ''download'' #
     (if fst (download env (begin_attempt c w)) = Inr True then [Enter ''test''] else []) @
     (if fst (attempt env c w) = Inr True then []
      else loop_entries env cs (snd (attempt env c w)))"

text \<open>
  In \<open>env_gone\<close> the index answers as in \<open>env_alt\<close>, and the server has none of the
  archives.
\<close>

definition env_gone :: env where
  "env_gone = env_alt
     \<lparr>requests_get := (\<lambda>tr url.
        if url = PStr ''https://index'' then
          Inr \<lparr>status_code = 200, content = [], body_text = ''<EnumerationResults/>''\<rparr>
        else Inr not_found)\<rparr>"

text \<open>
  In \<open>env_offline\<close> every request raises; in \<open>env_badzip\<close> the server answers with
  something that is not an archive.
\<close>

definition env_offline :: env where
  "env_offline = env_present\<lparr>requests_get := (\<lambda>tr url. Inl ''ConnectionError'')\<rparr>"

definition env_badzip :: env where
  "env_badzip = env_matched\<lparr>extractall := (\<lambda>tr c. Inl ''BadZipFile'')\<rparr>"

section \<open>Properties\<close>

subsection \<open>Rules for frames\<close>

lemma print_and_log_eq:
  "print_and_log message args log_type w = (Inr (), w\<lparr>trace := trace w @ logs message args log_type\<rparr>)"
  by (simp add: print_and_log_def sbind_def effect_def emit_def logs_def)

lemma step_refl: "step A S w w"
  by (simp add: step_def)

lemma step_trans:
  assumes "step A S w w'" and "step A S w' w''"
  shows "step A S w w''"
proof -
  from assms(1) obtain evs1 where a1: "\<forall>a. a \<notin> A \<longrightarrow> attrs w' a = attrs w a"
    and d1: "dom (attrs w) \<subseteq> dom (attrs w')"
    and t1: "trace w' = trace w @ evs1" and k1: "kind_of ` set evs1 \<subseteq> S"
    unfolding step_def by blast
  from assms(2) obtain evs2 where a2: "\<forall>a. a \<notin> A \<longrightarrow> attrs w'' a = attrs w' a"
    and d2: "dom (attrs w') \<subseteq> dom (attrs w'')"
    and t2: "trace w'' = trace w' @ evs2" and k2: "kind_of ` set evs2 \<subseteq> S"
    unfolding step_def by blast
  from t1 t2 have "trace w'' = trace w @ (evs1 @ evs2)" by simp
  moreover from k1 k2 have "kind_of ` set (evs1 @ evs2) \<subseteq> S" by auto
  moreover from a1 a2 have "\<forall>a. a \<notin> A \<longrightarrow> attrs w'' a = attrs w a" by simp
  moreover from d1 d2 have "dom (attrs w) \<subseteq> dom (attrs w'')" by (rule subset_trans)
  ultimately show ?thesis unfolding step_def by blast
qed

lemma step_emit: "kind_of ev \<in> S \<Longrightarrow> step A S w0 w \<Longrightarrow> step A S w0 (emit ev w)"
  by (auto simp: step_def emit_def)

lemma step_logs: "KLog \<in> S \<Longrightarrow> step A S w0 w \<Longrightarrow> step A S w0 (w\<lparr>trace := trace w @ logs m a l\<rparr>)"
  by (auto simp: step_def logs_def)

lemma step_attr: "a \<in> A \<Longrightarrow> step A S w0 w \<Longrightarrow> step A S w0 (w\<lparr>attrs := (attrs w)(a \<mapsto> v)\<rparr>)"
  by (auto simp: step_def)

lemma preserves_ret: "preserves I (ret x)"
  by (simp add: preserves_def ret_def)

lemma preserves_raise: "preserves I (raise e)"
  by (simp add: preserves_def raise_def)

lemma preserves_lift: "preserves I (lift r)"
  by (simp add: preserves_def lift_def)

lemma preserves_getattr: "preserves I (getattr a)"
  by (simp add: preserves_def getattr_def split: option.splits)

lemma preserves_sbind:
  "preserves I f \<Longrightarrow> (\<And>x. preserves I (g x)) \<Longrightarrow> preserves I (sbind f g)"
  unfolding preserves_def sbind_def
  by (auto split: prod.splits sum.splits)

lemma preserves_try_except:
  "preserves I f \<Longrightarrow> (\<And>e. preserves I (h e)) \<Longrightarrow> preserves I (try_except f h)"
  unfolding preserves_def try_except_def
  by (auto split: prod.splits sum.splits)

lemma preserves_if:
  "(c \<Longrightarrow> preserves I f) \<Longrightarrow> (\<not> c \<Longrightarrow> preserves I g) \<Longrightarrow> preserves I (if c then f else g)"
  by simp

lemma preserves_effect: "kind_of ev \<in> S \<Longrightarrow> preserves (step A S w0) (effect ev)"
  by (simp add: preserves_def effect_def step_emit)

lemma preserves_enter: "KEnter name \<in> S \<Longrightarrow> preserves (step A S w0) (enter name)"
  by (simp add: preserves_def enter_def step_emit)

lemma preserves_extern: "kind_of ev \<in> S \<Longrightarrow> preserves (step A S w0) (extern oracle ev)"
  by (simp add: preserves_def extern_def step_emit split: sum.splits)

lemma preserves_setattr: "a \<in> A \<Longrightarrow> preserves (step A S w0) (setattr a v)"
  by (simp add: preserves_def setattr_def step_attr)

lemma preserves_print_and_log: "KLog \<in> S \<Longrightarrow> preserves (step A S w0) (print_and_log m a l)"
  by (simp add: preserves_def print_and_log_eq step_logs)

lemmas preserves_rules = preserves_ret preserves_raise preserves_lift preserves_getattr
  preserves_sbind preserves_try_except preserves_if preserves_effect preserves_enter
  preserves_extern preserves_setattr preserves_print_and_log

lemma preserves_test:
  "{KEnter ''test'', KLog, KDriver} \<subseteq> S \<Longrightarrow> preserves (step A S w0) (test env)"
  unfolding test_def test_body_def
  by (intro preserves_rules) auto

lemma preserves_download:
  "{KEnter ''download'', KLog, KHttp, KZip} \<subseteq> S \<Longrightarrow> preserves (step A S w0) (download env)"
  unfolding download_def download_body_def
  by (intro preserves_rules) auto


subsection \<open>Rules for exceptions\<close>

lemma catchable_dict_get: "dict_get v k = Inl e \<Longrightarrow> catchable e"
  by (cases v) (auto split: option.splits)

lemma catchable_subscript: "subscript v k = Inl e \<Longrightarrow> catchable e"
  by (cases v) (auto split: option.splits)

lemma catchable_py_iter: "py_iter v = Inl e \<Longrightarrow> catchable e"
  by (cases v) auto

lemma catchable_str_split: "str_split v = Inl e \<Longrightarrow> catchable e"
  by (cases v) auto

lemma catchable_item0: "item0 ps = Inl e \<Longrightarrow> catchable e"
  by (cases ps) auto

lemma catchable_py_in: "py_in a b = Inl e \<Longrightarrow> catchable e"
  by (induction a b rule: py_in.induct) auto

lemma catchable_ebind:
  "ebind r f = Inl e \<Longrightarrow> (\<And>e. r = Inl e \<Longrightarrow> catchable e) \<Longrightarrow>
   (\<And>x e. f x = Inl e \<Longrightarrow> catchable e) \<Longrightarrow> catchable e"
  by (auto simp: ebind_def split: sum.splits)

lemma mild_ret: "mild (ret x)"
  by (simp add: mild_def ret_def)

lemma mild_lift: "(\<And>e. r = Inl e \<Longrightarrow> catchable e) \<Longrightarrow> mild (lift r)"
  by (simp add: mild_def lift_def)

lemma mild_getattr: "mild (getattr a)"
  by (auto simp: mild_def getattr_def split: option.splits)

lemma mild_setattr: "mild (setattr a v)"
  by (simp add: mild_def setattr_def)

lemma mild_effect: "mild (effect ev)"
  by (simp add: mild_def effect_def)

lemma mild_enter: "mild (enter name)"
  by (simp add: mild_def enter_def)

lemma mild_extern: "mild (extern oracle ev)"
  by (auto simp: mild_def extern_def split: sum.splits)

lemma mild_print_and_log: "mild (print_and_log m a l)"
  by (simp add: mild_def print_and_log_eq)

lemma mildD: "mild f \<Longrightarrow> f w = (Inl e, w') \<Longrightarrow> catchable e"
proof -
  assume m: "mild f" and h: "f w = (Inl e, w')"
  from h have "fst (f w) = Inl e" by simp
  with m show ?thesis unfolding mild_def by blast
qed

lemma mildI: "(\<And>w e w'. f w = (Inl e, w') \<Longrightarrow> catchable e) \<Longrightarrow> mild f"
proof (unfold mild_def, intro allI impI)
  fix w e
  assume r: "\<And>w e w'. f w = (Inl e, w') \<Longrightarrow> catchable e" and h: "fst (f w) = Inl e"
  from h have "f w = (Inl e, snd (f w))" by (cases "f w") simp
  then show "catchable e" by (rule r)
qed

lemma safeD: "safe I f \<Longrightarrow> I w \<Longrightarrow> \<exists>x w'. f w = (Inr x, w')"
proof -
  assume s: "safe I f" and i: "I w"
  then obtain x where "fst (f w) = Inr x" unfolding safe_def by blast
  then have "f w = (Inr x, snd (f w))" by (cases "f w") simp
  then show ?thesis by blast
qed

lemma safeI: "(\<And>w. I w \<Longrightarrow> \<exists>x w'. f w = (Inr x, w')) \<Longrightarrow> safe I f"
proof (unfold safe_def, intro allI impI)
  fix w
  assume r: "\<And>w. I w \<Longrightarrow> \<exists>x w'. f w = (Inr x, w')" and i: "I w"
  from r[OF i] obtain x w' where "f w = (Inr x, w')" by blast
  then have "fst (f w) = Inr x" by simp
  then show "\<exists>x. fst (f w) = Inr x" by blast
qed

lemma preservesD: "preserves I f \<Longrightarrow> I w \<Longrightarrow> f w = (r, w') \<Longrightarrow> I w'"
proof -
  assume p: "preserves I f" and i: "I w" and h: "f w = (r, w')"
  from p i have "I (snd (f w))" unfolding preserves_def by blast
  with h show ?thesis by simp
qed

lemma mild_sbind:
  assumes "mild f" and "\<And>x. mild (g x)"
  shows "mild (sbind f g)"
proof (rule mildI)
  fix w e w'
  assume h: "sbind f g w = (Inl e, w')"
  obtain r w1 where fw: "f w = (r, w1)" by (cases "f w")
  show "catchable e"
  proof (cases r)
    case (Inl e')
    with fw h have "e = e'" by (simp add: sbind_def)
    with fw Inl assms(1) show ?thesis by (auto dest: mildD)
  next
    case (Inr x)
    with fw h have "g x w1 = (Inl e, w')" by (simp add: sbind_def)
    with assms(2) show ?thesis by (auto dest: mildD)
  qed
qed

lemma mild_try_except:
  assumes "mild f" and "\<And>e. mild (h e)"
  shows "mild (try_except f h)"
proof (rule mildI)
  fix w e w'
  assume t: "try_except f h w = (Inl e, w')"
  obtain r w1 where fw: "f w = (r, w1)" by (cases "f w")
  show "catchable e"
  proof (cases r)
    case (Inl e')
    with fw assms(1) have c: "catchable e'" by (auto dest: mildD)
    with fw Inl t have "h e' w1 = (Inl e, w')" by (simp add: try_except_def)
    with assms(2) show ?thesis by (auto dest: mildD)
  next
    case (Inr x)
    with fw t show ?thesis by (simp add: try_except_def)
  qed
qed

lemma mild_if: "(c \<Longrightarrow> mild f) \<Longrightarrow> (\<not> c \<Longrightarrow> mild g) \<Longrightarrow> mild (if c then f else g)"
  by simp

lemmas mild_rules = mild_ret mild_getattr mild_setattr mild_effect mild_enter mild_extern
  mild_print_and_log mild_sbind mild_try_except mild_if

lemma safe_ret: "safe I (ret x)"
  by (simp add: safe_def ret_def)

lemma safe_setattr: "safe I (setattr a v)"
  by (simp add: safe_def setattr_def)

lemma safe_effect: "safe I (effect ev)"
  by (simp add: safe_def effect_def)

lemma safe_enter: "safe I (enter name)"
  by (simp add: safe_def enter_def)

lemma safe_print_and_log: "safe I (print_and_log m a l)"
  by (simp add: safe_def print_and_log_eq)

lemma safe_sbind:
  assumes "safe I f" and "preserves I f" and "\<And>x. safe I (g x)"
  shows "safe I (sbind f g)"
proof (rule safeI)
  fix w assume i: "I w"
  from safeD[OF assms(1) i] obtain x w1 where fw: "f w = (Inr x, w1)" by blast
  from preservesD[OF assms(2) i fw] have "I w1" .
  from safeD[OF assms(3) this] obtain y w2 where "g x w1 = (Inr y, w2)" by blast
  with fw show "\<exists>y w'. sbind f g w = (Inr y, w')" by (simp add: sbind_def)
qed

lemma safe_try_except:
  assumes "mild f" and "preserves I f" and "\<And>e. safe I (h e)"
  shows "safe I (try_except f h)"
proof (rule safeI)
  fix w assume i: "I w"
  obtain r w1 where fw: "f w = (r, w1)" by (cases "f w")
  from preservesD[OF assms(2) i fw] have i1: "I w1" .
  show "\<exists>y w'. try_except f h w = (Inr y, w')"
  proof (cases r)
    case (Inl e)
    with fw assms(1) have c: "catchable e" by (auto dest: mildD)
    from safeD[OF assms(3) i1] obtain y w2 where "h e w1 = (Inr y, w2)" by blast
    with fw Inl c show ?thesis by (simp add: try_except_def)
  next
    case (Inr x)
    with fw show ?thesis by (simp add: try_except_def)
  qed
qed

lemma safe_getattr_step:
  "a \<notin> A \<Longrightarrow> attrs w0 a \<noteq> None \<Longrightarrow> safe (step A S w0) (getattr a)"
  by (auto simp: safe_def step_def getattr_def split: option.splits)

lemma safe_weaken: "safe (\<lambda>w. True) f \<Longrightarrow> safe I f"
  by (simp add: safe_def)

lemma preserves_True: "preserves (\<lambda>w. True) f"
  by (simp add: preserves_def)

lemmas safe_rules = safe_ret safe_setattr safe_effect safe_enter safe_print_and_log

subsection \<open>The smoke test and the download\<close>

lemma mild_test_body: "mild (test_body env)"
  unfolding test_body_def by (intro mild_rules)

lemma mild_test: "mild (test env)"
  unfolding test_def by (intro mild_rules mild_test_body)

lemma safe_test: "safe I (test env)"
  unfolding test_def
  by (rule safe_weaken) (intro safe_sbind safe_try_except safe_rules mild_test_body preserves_True)

lemma mild_download_body: "mild (download_body env)"
  unfolding download_body_def by (intro mild_rules)

lemma mild_download: "mild (download env)"
  unfolding download_def by (intro mild_rules mild_download_body)


lemma preserves_download_body:
  "{KLog, KHttp, KZip} \<subseteq> S \<Longrightarrow> preserves (step A S w0) (download_body env)"
  unfolding download_body_def
  by (intro preserves_rules) auto

lemma safe_download:
  assumes "attrs w0 ''url'' \<noteq> None"
  shows "safe (step {} UNIV w0) (download env)"
  unfolding download_def
  apply (intro safe_sbind safe_try_except safe_rules mild_download_body preserves_download_body
      preserves_enter preserves_print_and_log preserves_getattr safe_getattr_step assms)
  apply simp_all
  done

lemma getattr_set: "attrs w a = Some v \<Longrightarrow> getattr a w = (Inr v, w)"
  by (simp add: getattr_def)

lemma download_eq:
  assumes u: "attrs w ''url'' = Some u"
  shows "download env w =
    (case requests_get env (trace w @ download_started u) u of
       Inl msg \<Rightarrow>
         (Inr False, w\<lparr>trace := trace w @ download_started u @ HttpGet u # download_failed u (EnvError msg)\<rparr>)
     | Inr r \<Rightarrow>
         if status_code r = 200 then
           (case extractall env (trace w @ download_started u @ [HttpGet u]) (content r) of
              Inl msg \<Rightarrow>
                (Inr False, w\<lparr>trace := trace w @ download_started u @ HttpGet u # Extractall (content r)
                     # download_failed u (EnvError msg)\<rparr>)
            | Inr x \<Rightarrow>
                (Inr True, w\<lparr>trace := trace w @ download_started u @ HttpGet u # Extractall (content r)
                     # logs ''Download finished with status: {}'' [Val (PBool True)] ''info''\<rparr>))
         else
           (Inr False, w\<lparr>trace := trace w @ download_started u @ HttpGet u
                # logs ''Not found : {}'' [Val u] ''warning''\<rparr>))"
  by (simp add: download_def download_body_def sbind_def try_except_def getattr_set u enter_def
      emit_def extern_def print_and_log_eq ret_def download_started_def download_failed_def
      handler_logs_def ok_def split: sum.splits)

lemmas trace_simps = added_def http_gets_def download_started_def download_failed_def
  handler_logs_def logs_def level_of_def

subsection \<open>Claim C8\<close>

text \<open>
  C8. \<^verbatim>\<open>download()\<close> never raises to its caller and leaves the attributes alone; it
  performs exactly one HTTP GET, of the current \<^verbatim>\<open>self.url\<close>; it returns true exactly when
  the response has status 200 and the archive was extracted without an error, and then
  the extraction is in the trace; when it returns false it has logged a warning or an
  error.
\<close>

theorem download_one_get_no_raise:
  assumes "attrs w ''url'' = Some u"
  shows "(\<exists>b. fst (download env w) = Inr b) \<and>
    attrs (snd (download env w)) = attrs w \<and>
    http_gets (added w (snd (download env w))) = [HttpGet u] \<and>
    (fst (download env w) = Inr True \<longleftrightarrow>
       (\<exists>r. requests_get env (trace w @ download_started u) u = Inr r \<and> status_code r = 200 \<and>
            extractall env (trace w @ download_started u @ [HttpGet u]) (content r) = Inr ())) \<and>
    (fst (download env w) = Inr True \<longrightarrow>
       (\<exists>r. requests_get env (trace w @ download_started u) u = Inr r \<and>
            Extractall (content r) \<in> set (added w (snd (download env w))))) \<and>
    (fst (download env w) = Inr False \<longrightarrow>
       (\<exists>m a. LogRec Warning m a \<in> set (added w (snd (download env w))) \<or>
              LogRec Error m a \<in> set (added w (snd (download env w)))))"
proof (cases "requests_get env (trace w @ download_started u) u")
  case (Inl msg)
  then show ?thesis
    by (auto simp add: download_eq[OF assms] trace_simps)
next
  case (Inr r)
  show ?thesis
  proof (cases "status_code r = 200")
    case False
    with Inr show ?thesis
      by (auto simp add: download_eq[OF assms] trace_simps)
  next
    case True
    show ?thesis
    proof (cases "extractall env (trace w @ download_started u @ [HttpGet u]) (content r)")
      case (Inl msg)
      with Inr True show ?thesis
        by (auto simp add: download_eq[OF assms] trace_simps)
    next
      case (Inr x)
      with \<open>requests_get env (trace w @ download_started u) u = Inr r\<close> True show ?thesis
        by (auto simp add: download_eq[OF assms] trace_simps)
    qed
  qed
qed

theorem download_one_get_no_raise_witness:
  "attrs w_url ''url'' = Some (PStr ''https://store/103.0.1264.37/edgedriver_win64.zip'') \<and>
   fst (download env_matched w_url) = Inr True \<and>
   http_gets (added w_url (snd (download env_matched w_url))) =
     [HttpGet (PStr ''https://store/103.0.1264.37/edgedriver_win64.zip'')] \<and>
   Extractall ''driver'' \<in> set (added w_url (snd (download env_matched w_url)))"
proof -
  have u: "attrs w_url ''url'' = Some (PStr ''https://store/103.0.1264.37/edgedriver_win64.zip'')"
    by (simp add: w_url_def)
  from download_one_get_no_raise[OF u, of env_matched] u show ?thesis
    by (simp add: env_matched_def env_present_def archive_def)
qed

subsection \<open>What the methods do, step by step\<close>

lemma getattr_unset:
  "attrs w a = None \<Longrightarrow> class_attrs a = None \<Longrightarrow> getattr a w = (Inl (AttributeError a), w)"
  by (simp add: getattr_def)

lemma class_attrs_token_mail: "class_attrs ''token_mail'' = None"
  by (simp add: class_attrs_def)

lemma class_attrs_BOT_FOLDERS: "class_attrs ''BOT_FOLDERS'' = None"
  by (simp add: class_attrs_def)

lemma class_attrs_CLIENT_ID: "class_attrs ''CLIENT_ID'' = None"
  by (simp add: class_attrs_def)

lemma test_eq:
  assumes d: "attrs w ''DRIVER_NAME'' = Some d"
  shows "test env w =
    (case webdriver_Edge env (trace w @ test_started) d of
       Inl msg \<Rightarrow>
         (Inr False, w\<lparr>trace := trace w @ test_started @ EdgeStart d # test_failed (EnvError msg)\<rparr>)
     | Inr x \<Rightarrow>
         (case driver_close env (trace w @ test_started @ [EdgeStart d, Sleep]) of
            Inl msg \<Rightarrow>
              (Inr False, w\<lparr>trace := trace w @ test_started @ EdgeStart d # Sleep # EdgeClose
                   # test_failed (EnvError msg)\<rparr>)
          | Inr y \<Rightarrow>
              (Inr True, w\<lparr>trace := trace w @ test_started @ EdgeStart d # Sleep # EdgeClose
                   # logs ''Testing finished succesfully'' [] ''info''\<rparr>)))"
  by (simp add: test_def test_body_def sbind_def try_except_def getattr_set d enter_def
      emit_def extern_def effect_def print_and_log_eq ret_def test_started_def test_failed_def
      handler_logs_def split: sum.splits)

lemma send_mail_unset:
  assumes "attrs w ''token_mail'' = None"
  shows "send_mail env message margs subject w =
    (Inr (), w\<lparr>trace := trace w @ Enter ''send_mail''
       # handler_logs (AttributeError (if attrs w ''CLIENT_ID'' = None then ''CLIENT_ID'' else ''token_mail''))\<rparr>)"
  using assms
  by (simp add: send_mail_def send_mail_body_def sbind_def try_except_def getattr_def
      class_attrs_token_mail class_attrs_CLIENT_ID enter_def emit_def print_and_log_eq
      handler_logs_def split: option.splits)

lemma copy_to_path_unset:
  assumes "attrs w ''BOT_FOLDERS'' = None"
  shows "copy_to_path env w = (Inl (AttributeError ''BOT_FOLDERS''), emit (Enter ''copy_to_path'') w)"
  using assms
  by (simp add: copy_to_path_def sbind_def getattr_def class_attrs_BOT_FOLDERS enter_def emit_def)

subsection \<open>Frames of the methods\<close>

lemma step_events:
  assumes "kind_of ` set evs \<subseteq> S" and "step A S w0 w"
  shows "step A S w0 (w\<lparr>trace := trace w @ evs\<rparr>)"
proof -
  have "step A S w (w\<lparr>trace := trace w @ evs\<rparr>)"
    unfolding step_def using assms(1) by simp
  with assms(2) show ?thesis by (rule step_trans)
qed

lemma kinds_handler_logs: "kind_of ` set (handler_logs e) = {KLog}"
  by (simp add: handler_logs_def logs_def)

lemma preserves_send_mail:
  assumes "''token_mail'' \<notin> A" and "attrs w0 ''token_mail'' = None"
    and "{KEnter ''send_mail'', KLog} \<subseteq> S"
  shows "preserves (step A S w0) (send_mail env message margs subject)"
proof (unfold preserves_def, intro allI impI)
  fix w
  assume s: "step A S w0 w"
  with assms(1,2) have "attrs w ''token_mail'' = None" by (simp add: step_def)
  then obtain a where "snd (send_mail env message margs subject w) =
      w\<lparr>trace := trace w @ Enter ''send_mail'' # handler_logs (AttributeError a)\<rparr>"
    by (simp add: send_mail_unset)
  moreover have "kind_of ` set (Enter ''send_mail'' # handler_logs (AttributeError a)) \<subseteq> S"
    using assms(3) by (simp add: kinds_handler_logs)
  ultimately show "step A S w0 (snd (send_mail env message margs subject w))"
    using s by (simp add: step_events)
qed

lemma preserves_copy_to_path:
  assumes "''BOT_FOLDERS'' \<notin> A" and "attrs w0 ''BOT_FOLDERS'' = None"
    and "KEnter ''copy_to_path'' \<in> S"
  shows "preserves (step A S w0) (copy_to_path env)"
proof (unfold preserves_def, intro allI impI)
  fix w
  assume s: "step A S w0 w"
  with assms(1,2) have "attrs w ''BOT_FOLDERS'' = None" by (simp add: step_def)
  then have "snd (copy_to_path env w) = emit (Enter ''copy_to_path'') w"
    by (simp add: copy_to_path_unset)
  with s assms(3) show "step A S w0 (snd (copy_to_path env w))"
    by (simp add: step_emit)
qed

lemma preserves_get_edge_version:
  "{KEnter ''_get_edge_version'', KReg} \<subseteq> S \<Longrightarrow> preserves (step A S w0) (get_edge_version env)"
  unfolding get_edge_version_def
  by (intro preserves_rules) auto

lemma preserves_import_data:
  assumes "''token_mail'' \<notin> A" and "attrs w0 ''token_mail'' = None"
    and "{KEnter ''import_data'', KOpen, KEnter ''send_mail'', KLog} \<subseteq> S"
  shows "preserves (step A S w0) (import_data env)"
  unfolding import_data_def
  by (intro preserves_rules preserves_send_mail assms(1,2)) (use assms(3) in auto)

lemma preserves_load_prop: "attr \<in> A \<Longrightarrow> preserves (step A S w0) (load_prop properties key attr)"
  unfolding load_prop_def
  by (intro preserves_rules) auto

lemma preserves_init:
  assumes "attrs w0 ''token_mail'' = None" and "init_kinds \<subseteq> S"
  shows "preserves (step init_names S w0) (init env os_type)"
  unfolding init_def
  by (intro preserves_rules preserves_get_edge_version preserves_import_data preserves_load_prop
      assms(1)) (use assms(2) in \<open>auto simp: init_names_def init_kinds_def\<close>)

lemma matches_state: "snd (matches u w) = w"
  by (simp add: matches_def sbind_def lift_def getattr_def ret_def
      split: sum.splits option.splits prod.splits)

lemma list_urls_state: "snd (list_urls us w) = w"
proof (induction us arbitrary: w)
  case Nil
  show ?case by simp
next
  case (Cons u us)
  obtain r w1 where m: "matches u w = (r, w1)" by (cases "matches u w")
  with matches_state[of u w] have w1: "w1 = w" by simp
  obtain r2 w2 where l: "list_urls us w = (r2, w2)" by (cases "list_urls us w")
  with Cons.IH[of w] have w2: "w2 = w" by simp
  from m w1 l w2 show ?case by (simp split: sum.splits)
qed

lemma preserves_list_urls: "preserves I (list_urls us)"
  by (simp add: preserves_def list_urls_state)

lemma preserves_scan:
  "{KLog, KHttp} \<subseteq> S \<Longrightarrow> preserves (step A S w0) (scan env)"
  unfolding scan_def
  by (intro preserves_rules preserves_list_urls) auto

lemma preserves_attempt:
  assumes "''url'' \<in> A" and "{KLog, KEnter ''download'', KHttp, KZip, KEnter ''test'', KDriver} \<subseteq> S"
  shows "preserves (step A S w0) (attempt env obj)"
  unfolding attempt_def
  by (intro preserves_rules preserves_download preserves_test) (use assms in auto)

lemma preserves_try_loop:
  assumes "\<And>obj. preserves I (attempt env obj)"
  shows "preserves I (try_loop env cs)"
proof (induction cs)
  case Nil
  show ?case by (simp add: preserves_def)
next
  case (Cons obj rest)
  show ?case
  proof (unfold preserves_def, intro allI impI)
    fix w assume i: "I w"
    obtain r w1 where a: "attempt env obj w = (r, w1)" by (cases "attempt env obj w")
    from preservesD[OF assms i a] have i1: "I w1" .
    from Cons.IH i1 have "I (snd (try_loop env rest w1))" by (simp add: preserves_def)
    with a i1 show "I (snd (try_loop env (obj # rest) w))"
      by (auto split: sum.splits bool.splits)
  qed
qed

lemma preserves_try_another_version:
  assumes "''url'' \<in> A" and "''token_mail'' \<notin> A" and "attrs w0 ''token_mail'' = None"
    and "alt_kinds \<subseteq> S"
  shows "preserves (step A S w0) (try_another_version env)"
  unfolding try_another_version_def
  by (intro preserves_rules preserves_scan preserves_try_loop preserves_attempt
      preserves_send_mail assms(1,2,3)) (use assms(4) in \<open>auto simp: alt_kinds_def\<close>)

lemma dict_get_PDict: "dict_get (PDict kvs) k = Inr (prop_of kvs k)"
  by (simp add: prop_of_def split: option.splits)

lemma init_no_version:
  assumes "winreg_version env init_tr0 = Inl msg"
  shows "init env os_type fresh = (Inl (EnvError msg), \<lparr>attrs = Map.empty, trace = init_tr0 @ [RegQuery]\<rparr>)"
  using assms
  by (simp add: init_def get_edge_version_def sbind_def enter_def emit_def extern_def fresh_def
      init_tr0_def)

lemma import_data_ok:
  assumes "json_load env (trace w @ [Enter ''import_data'']) properties_path = Inr p"
    and "attrs w ''PATH_OF_PROPERTIES'' = None"
  shows "import_data env w = (Inr p, w\<lparr>trace := trace w @ [Enter ''import_data'', OpenRead properties_path]\<rparr>)"
  using assms
  by (simp add: import_data_def sbind_def try_except_def enter_def emit_def extern_def getattr_def
      class_attrs_def properties_path_def)

lemma import_data_failed:
  assumes "json_load env (trace w @ [Enter ''import_data'']) properties_path = Inl msg"
    and "attrs w ''PATH_OF_PROPERTIES'' = None" and "attrs w ''token_mail'' = None"
    and "attrs w ''CLIENT_ID'' = None"
  shows "import_data env w = (Inr PNone, w\<lparr>trace := trace w @ Enter ''import_data'' # OpenRead properties_path #
     logs ''Log error of version, notiftying via mail...'' [] ''debug'' @
     Enter ''send_mail'' # handler_logs (AttributeError ''CLIENT_ID'')\<rparr>)"
  using assms
  by (simp add: import_data_def sbind_def try_except_def enter_def emit_def extern_def getattr_def
      class_attrs_def properties_path_def print_and_log_eq send_mail_unset ret_def)

lemma load_prop_PDict:
  "load_prop (PDict kvs) key attr w = (Inr (), w\<lparr>attrs := (attrs w)(attr \<mapsto> prop_of kvs key)\<rparr>)"
  by (simp add: load_prop_def sbind_def lift_def setattr_def prop_of_def split: option.splits)

lemma dict_get_not_dict: "(\<And>kvs. p \<noteq> PDict kvs) \<Longrightarrow> dict_get p k = Inl (AttributeError ''get'')"
  by (cases p) auto

lemma load_prop_not_dict:
  "(\<And>kvs. p \<noteq> PDict kvs) \<Longrightarrow> load_prop p key attr w = (Inl (AttributeError ''get''), w)"
  by (simp add: load_prop_def sbind_def lift_def dict_get_not_dict)

lemma sbind_assoc: "sbind (sbind f g) h = sbind f (\<lambda>x. sbind (g x) h)"
  by (rule ext) (simp add: sbind_def split: prod.splits sum.splits)

lemma sbind_ret: "sbind (ret x) g w = g x w"
  by (simp add: sbind_def ret_def)

lemma sbind_raise: "sbind (raise e) g w = (Inl e, w)"
  by (simp add: sbind_def raise_def)

lemma sbind_lift: "sbind (lift r) g w = (case r of Inl e \<Rightarrow> (Inl e, w) | Inr x \<Rightarrow> g x w)"
  by (simp add: sbind_def lift_def split: sum.splits)

lemma sbind_enter: "sbind (enter name) g w = g () (w\<lparr>trace := trace w @ [Enter name]\<rparr>)"
  by (simp add: sbind_def enter_def emit_def)

lemma sbind_effect: "sbind (effect ev) g w = g () (w\<lparr>trace := trace w @ [ev]\<rparr>)"
  by (simp add: sbind_def effect_def emit_def)

lemma sbind_extern:
  "sbind (extern oracle ev) g w =
     (case oracle (trace w) of
        Inl msg \<Rightarrow> (Inl (EnvError msg), w\<lparr>trace := trace w @ [ev]\<rparr>)
      | Inr x \<Rightarrow> g x (w\<lparr>trace := trace w @ [ev]\<rparr>))"
  by (simp add: sbind_def extern_def emit_def split: sum.splits)

lemma sbind_setattr: "sbind (setattr a v) g w = g () (w\<lparr>attrs := (attrs w)(a \<mapsto> v)\<rparr>)"
  by (simp add: sbind_def setattr_def)

lemma sbind_print_and_log:
  "sbind (print_and_log message args log_type) g w =
     g () (w\<lparr>trace := trace w @ logs message args log_type\<rparr>)"
  by (simp add: sbind_def print_and_log_eq)

lemma sbind_getattr_set: "attrs w a = Some v \<Longrightarrow> sbind (getattr a) g w = g v w"
  by (simp add: sbind_def getattr_set)

lemma sbind_load_prop_PDict:
  "sbind (load_prop (PDict kvs) key attr) g w = g () (w\<lparr>attrs := (attrs w)(attr \<mapsto> prop_of kvs key)\<rparr>)"
  by (simp add: sbind_def load_prop_PDict)

lemmas sbind_simps = sbind_assoc sbind_ret sbind_raise sbind_lift sbind_enter sbind_effect
  sbind_extern sbind_setattr sbind_print_and_log sbind_getattr_set sbind_load_prop_PDict

lemma init_prefix:
  assumes "winreg_version env init_tr0 = Inr v"
  shows "init env os_type fresh =
    sbind (import_data env) (\<lambda>properties.
     sbind (load_prop properties ''driver_name'' ''DRIVER_NAME'') (\<lambda>_.
     sbind (load_prop properties ''base_url'' ''BASE_URL'') (\<lambda>_.
     sbind (load_prop properties ''emails_to_report'' ''EMAILS_TO_REPORT'') (\<lambda>_.
     sbind (load_prop properties ''current_path'' ''CURRENT_PATH'') (\<lambda>_.
     sbind (load_prop properties ''token_id'' ''TOKEN_ID'') (\<lambda>_.
     sbind (load_prop properties ''host'' ''HOST'') (\<lambda>_.
     sbind (load_prop properties ''tenant_id'' ''TENANT_ID'') (\<lambda>_.
     sbind (load_prop properties ''client_id'' ''CLIENT_ID'') (\<lambda>_.
     sbind (print_and_log (replicate 40 CHR ''*'') [] ''info'') (\<lambda>_.
     sbind (print_and_log ''Driver Manager Started'' [] ''info'') (\<lambda>_.
     sbind (print_and_log (replicate 40 CHR ''*'') [] ''info'') (\<lambda>_.
     sbind (getattr ''version'') (\<lambda>v.
     sbind (getattr ''os_type'') (\<lambda>t.
     print_and_log ''Edge version: {} OStype: {}'' [Val v, Val t] ''debug''))))))))))))))
     \<lparr>attrs = early_attrs v os_type, trace = init_tr0 @ [RegQuery]\<rparr>"
  using assms
  by (simp add: init_def get_edge_version_def sbind_simps fresh_def init_tr0_def early_attrs_def)

lemma init_no_properties:
  assumes "winreg_version env init_tr0 = Inr v"
    and "json_load env init_tr1 properties_path = Inl msg"
  shows "init env os_type fresh =
    (Inl (AttributeError ''get''), \<lparr>attrs = early_attrs v os_type, trace = no_properties_trace\<rparr>)"
proof -
  let ?w = "\<lparr>attrs = early_attrs v os_type, trace = init_tr0 @ [RegQuery]\<rparr>"
  have "import_data env ?w = (Inr PNone, ?w\<lparr>trace := trace ?w @ Enter ''import_data'' # OpenRead properties_path #
     logs ''Log error of version, notiftying via mail...'' [] ''debug'' @
     Enter ''send_mail'' # handler_logs (AttributeError ''CLIENT_ID'')\<rparr>)"
    using assms(2) by (intro import_data_failed) (simp_all add: init_tr1_def early_attrs_def)
  then show ?thesis
    by (simp add: init_prefix[OF assms(1)] sbind_def load_prop_not_dict no_properties_trace_def
        init_tr1_def)
qed

lemma init_bad_properties:
  assumes "winreg_version env init_tr0 = Inr v"
    and "json_load env init_tr1 properties_path = Inr p" and "\<And>kvs. p \<noteq> PDict kvs"
  shows "init env os_type fresh =
    (Inl (AttributeError ''get''),
     \<lparr>attrs = early_attrs v os_type, trace = init_tr1 @ [OpenRead properties_path]\<rparr>)"
proof -
  let ?w = "\<lparr>attrs = early_attrs v os_type, trace = init_tr0 @ [RegQuery]\<rparr>"
  have "import_data env ?w = (Inr p, ?w\<lparr>trace := trace ?w @ [Enter ''import_data'', OpenRead properties_path]\<rparr>)"
    using assms(2) by (intro import_data_ok) (simp_all add: init_tr1_def early_attrs_def)
  then show ?thesis
    by (simp add: init_prefix[OF assms(1)] sbind_def load_prop_not_dict[OF assms(3)] init_tr1_def)
qed

lemma init_ok:
  assumes "winreg_version env init_tr0 = Inr v"
    and "json_load env init_tr1 properties_path = Inr (PDict kvs)"
  shows "init env os_type fresh =
    (Inr (), \<lparr>attrs = init_attrs v os_type kvs, trace = init_trace v os_type\<rparr>)"
proof -
  let ?w = "\<lparr>attrs = early_attrs v os_type, trace = init_tr0 @ [RegQuery]\<rparr>"
  have i: "import_data env ?w = (Inr (PDict kvs), ?w\<lparr>trace := trace ?w @ [Enter ''import_data'', OpenRead properties_path]\<rparr>)"
    using assms(2) by (intro import_data_ok) (simp_all add: init_tr1_def early_attrs_def)
  show ?thesis
    apply (simp add: init_prefix[OF assms(1)])
    apply (subst sbind_def)
    apply (simp add: i sbind_simps)
    apply (simp add: early_attrs_def sbind_simps print_and_log_eq init_attrs_def init_trace_def
        banner_def init_tr1_def)
    done
qed

lemma mild_lib: "mild (lib env name args)"
  unfolding lib_def by (rule mild_extern)

lemma mild_send_mail_body: "mild (send_mail_body env message margs subject)"
  unfolding send_mail_body_def by (intro mild_rules mild_lib)

lemma safe_send_mail: "safe I (send_mail env message margs subject)"
  unfolding send_mail_def
  by (rule safe_weaken)
    (intro safe_sbind safe_try_except safe_rules mild_send_mail_body preserves_True)

lemma mild_send_mail: "mild (send_mail env message margs subject)"
  unfolding send_mail_def by (intro mild_rules mild_send_mail_body)

lemma mild_matches: "mild (matches u)"
  unfolding matches_def
  by (intro mild_rules mild_lift)
    (auto dest: catchable_subscript catchable_py_in catchable_str_split catchable_item0
      elim!: catchable_ebind)

lemma mild_list_urls: "mild (list_urls us)"
proof (induction us)
  case Nil
  show ?case by (simp add: mild_def)
next
  case (Cons u us)
  show ?case
  proof (rule mildI)
    fix w e w'
    assume h: "list_urls (u # us) w = (Inl e, w')"
    obtain r w1 where m: "matches u w = (r, w1)" by (cases "matches u w")
    obtain r2 w2 where l: "list_urls us w1 = (r2, w2)" by (cases "list_urls us w1")
    show "catchable e"
    proof (cases r)
      case (Inl e1)
      with m h have "e = e1" by simp
      with m Inl mild_matches show ?thesis by (auto dest: mildD)
    next
      case (Inr keep)
      with m l h have "r2 = Inl e" by (cases r2) auto
      with l Cons.IH show ?thesis by (auto dest: mildD)
    qed
  qed
qed

lemma catchable_blobs: "blobs results = Inl e \<Longrightarrow> catchable e"
  unfolding blobs_def
  by (auto dest: catchable_dict_get elim!: catchable_ebind)

lemma mild_scan: "mild (scan env)"
  unfolding scan_def
  by (intro mild_rules mild_lift mild_list_urls)
    (auto dest: catchable_blobs catchable_py_iter split: sum.splits)

lemma mild_attempt: "mild (attempt env obj)"
  unfolding attempt_def
  by (intro mild_rules mild_lift mild_download mild_test) (auto dest: catchable_dict_get)

lemma mild_try_loop: "mild (try_loop env cs)"
proof (induction cs)
  case Nil
  show ?case by (simp add: mild_def)
next
  case (Cons obj rest)
  show ?case
  proof (rule mildI)
    fix w e w'
    assume h: "try_loop env (obj # rest) w = (Inl e, w')"
    obtain r w1 where a: "attempt env obj w = (r, w1)" by (cases "attempt env obj w")
    show "catchable e"
    proof (cases r)
      case (Inl e1)
      with a h have "e = e1" by simp
      with a Inl mild_attempt show ?thesis by (auto dest: mildD)
    next
      case (Inr b)
      with a h have "\<not> b" and "try_loop env rest w1 = (Inl e, w')" by (cases b; simp)+
      with Cons.IH show ?thesis by (auto dest: mildD)
    qed
  qed
qed

lemma safe_try_another_version: "safe I (try_another_version env)"
  unfolding try_another_version_def
  by (rule safe_weaken)
    (intro safe_sbind safe_try_except safe_rules safe_send_mail mild_sbind mild_scan mild_try_loop
      preserves_True)

lemma mild_try_another_version: "mild (try_another_version env)"
  unfolding try_another_version_def
  by (intro mild_rules mild_scan mild_try_loop mild_send_mail)

subsection \<open>Reachable states\<close>

lemma preservesE: "preserves I f \<Longrightarrow> I w \<Longrightarrow> I (snd (f w))"
  by (simp add: preserves_def)

lemma not_init_names:
  "''token_mail'' \<notin> init_names" "''user_mail'' \<notin> init_names" "''BOT_FOLDERS'' \<notin> init_names"
  "''url'' \<in> init_names"
  by (simp_all add: init_names_def)

lemma fresh_unset: "attrs fresh a = None"
  by (simp add: fresh_def)

lemma quiet_kinds_simps:
  "init_kinds \<subseteq> quiet_kinds" "alt_kinds \<subseteq> quiet_kinds" "KLog \<in> quiet_kinds"
  "KEnter name \<in> quiet_kinds" "KHttp \<in> quiet_kinds" "KZip \<in> quiet_kinds"
  "KDriver \<in> quiet_kinds" "KReg \<in> quiet_kinds" "KOpen \<in> quiet_kinds"
  "KMail \<notin> quiet_kinds" "KCopy \<notin> quiet_kinds"
  by (auto simp: quiet_kinds_def init_kinds_def alt_kinds_def)

lemma reachable_step:
  "reachable env w \<Longrightarrow> step init_names quiet_kinds fresh w"
proof (induction rule: reachable.induct)
  case (r_init os_type)
  show ?case
    by (rule preservesE[OF preserves_init step_refl]) (simp_all add: fresh_unset quiet_kinds_simps)
next
  case (r_download w)
  then show ?case
    by (intro preservesE[OF preserves_download]) (simp_all add: quiet_kinds_simps)
next
  case (r_test w)
  then show ?case
    by (intro preservesE[OF preserves_test]) (simp_all add: quiet_kinds_simps)
next
  case (r_try_another_version w)
  then show ?case
    by (intro preservesE[OF preserves_try_another_version])
      (simp_all add: quiet_kinds_simps not_init_names fresh_unset)
next
  case (r_print_and_log w message args log_type)
  then show ?case
    by (intro preservesE[OF preserves_print_and_log]) (simp_all add: quiet_kinds_simps)
next
  case (r_send_mail w message margs subject)
  then show ?case
    by (intro preservesE[OF preserves_send_mail])
      (simp_all add: quiet_kinds_simps not_init_names fresh_unset)
next
  case (r_import_data w)
  then show ?case
    by (intro preservesE[OF preserves_import_data])
      (simp_all add: quiet_kinds_simps not_init_names fresh_unset)
next
  case (r_get_edge_version w)
  then show ?case
    by (intro preservesE[OF preserves_get_edge_version]) (simp_all add: quiet_kinds_simps)
next
  case (r_copy_to_path w)
  then show ?case
    by (intro preservesE[OF preserves_copy_to_path])
      (simp_all add: quiet_kinds_simps not_init_names fresh_unset)
qed

lemma reachable_unset:
  assumes "reachable env w" and "a \<notin> init_names"
  shows "attrs w a = None"
  using reachable_step[OF assms(1)] assms(2) by (simp add: step_def fresh_def)

lemma kinds_of_trace:
  assumes "step A S fresh w"
  shows "kind_of ` set (trace w) \<subseteq> S"
  using assms by (auto simp: step_def fresh_def)

lemma reachable_kinds:
  assumes "reachable env w" and "ev \<in> set (trace w)"
  shows "kind_of ev \<noteq> KMail \<and> kind_of ev \<noteq> KCopy"
  using kinds_of_trace[OF reachable_step[OF assms(1)]] assms(2)
  by (auto simp: quiet_kinds_def)

lemma init_success:
  assumes "fst (init env os_type fresh) = Inr ()"
  obtains v kvs where "winreg_version env init_tr0 = Inr v"
    and "json_load env init_tr1 properties_path = Inr (PDict kvs)"
proof (cases "winreg_version env init_tr0")
  case (Inl msg)
  from init_no_version[OF this] assms show ?thesis by simp
next
  case v: (Inr v)
  show ?thesis
  proof (cases "json_load env init_tr1 properties_path")
    case (Inl msg)
    from init_no_properties[OF v this] assms show ?thesis by simp
  next
    case p: (Inr p)
    show ?thesis
    proof (cases "\<exists>kvs. p = PDict kvs")
      case True
      with v p that show ?thesis by blast
    next
      case False
      then have "\<And>kvs. p \<noteq> PDict kvs" by blast
      from init_bad_properties[OF v p this] assms show ?thesis by simp
    qed
  qed
qed

lemma init_attrs_url: "init_attrs v os_type kvs ''url'' = Some (PStr (matched_url v os_type))"
  by (simp add: init_attrs_def early_attrs_def)

lemma init_attrs_version: "init_attrs v os_type kvs ''version'' = Some (PStr v)"
  by (simp add: init_attrs_def early_attrs_def)

lemma init_attrs_os_type: "init_attrs v os_type kvs ''os_type'' = Some (PStr os_type)"
  by (simp add: init_attrs_def early_attrs_def)

lemma init_attrs_DRIVER_NAME: "init_attrs v os_type kvs ''DRIVER_NAME'' = Some (prop_of kvs ''driver_name'')"
  by (simp add: init_attrs_def early_attrs_def)

lemma init_attrs_BASE_URL: "init_attrs v os_type kvs ''BASE_URL'' = Some (prop_of kvs ''base_url'')"
  by (simp add: init_attrs_def early_attrs_def)

lemma init_attrs_CLIENT_ID: "init_attrs v os_type kvs ''CLIENT_ID'' = Some (prop_of kvs ''client_id'')"
  by (simp add: init_attrs_def early_attrs_def)

lemma init_names_set:
  assumes "fst (init env os_type fresh) = Inr ()" and "a \<in> init_names"
  shows "attrs (snd (init env os_type fresh)) a \<noteq> None"
proof -
  from assms(1) obtain v kvs where "winreg_version env init_tr0 = Inr v"
    and "json_load env init_tr1 properties_path = Inr (PDict kvs)" by (rule init_success)
  from init_ok[OF this] assms(2) show ?thesis
    by (auto simp: init_names_def init_attrs_def early_attrs_def)
qed

lemma reachable_set:
  assumes "reachable env w" and "a \<in> init_names"
  shows "attrs w a \<noteq> None"
  using assms
proof (induction rule: reachable.induct)
  case (r_init os_type)
  then show ?case by (simp add: init_names_set)
next
  case (r_download w)
  from preservesE[OF preserves_download[of UNIV "{}" w env] step_refl] r_download show ?case
    by (auto simp: step_def)
next
  case (r_test w)
  from preservesE[OF preserves_test[of UNIV "{}" w env] step_refl] r_test show ?case
    by (auto simp: step_def)
next
  case (r_try_another_version w)
  have "attrs w ''token_mail'' = None"
    using r_try_another_version(1) by (simp add: reachable_unset not_init_names)
  from preservesE[OF preserves_try_another_version[of "{''url''}" w UNIV env] step_refl] this
    r_try_another_version show ?case
    by (auto simp: step_def)
next
  case (r_print_and_log w message args log_type)
  then show ?case by (simp add: print_and_log_eq)
next
  case (r_send_mail w message margs subject)
  have "attrs w ''token_mail'' = None"
    using r_send_mail(1) by (simp add: reachable_unset not_init_names)
  with r_send_mail show ?case by (simp add: send_mail_unset)
next
  case (r_import_data w)
  have "attrs w ''token_mail'' = None"
    using r_import_data(1) by (simp add: reachable_unset not_init_names)
  from preservesE[OF preserves_import_data[of "{}" w UNIV env] step_refl] this r_import_data
  show ?case
    by (auto simp: step_def)
next
  case (r_get_edge_version w)
  from preservesE[OF preserves_get_edge_version[of UNIV "{}" w env] step_refl] r_get_edge_version
  show ?case
    by (auto simp: step_def)
next
  case (r_copy_to_path w)
  have "attrs w ''BOT_FOLDERS'' = None"
    using r_copy_to_path(1) by (simp add: reachable_unset not_init_names)
  with r_copy_to_path show ?case by (simp add: copy_to_path_unset emit_def)
qed

subsection \<open>The whole run\<close>

lemma preserves_main: "preserves (step init_names quiet_kinds fresh) (main env)"
  unfolding main_def
  by (intro preserves_rules preserves_init preserves_test preserves_download
      preserves_try_another_version preserves_send_mail preserves_copy_to_path)
    (simp_all add: quiet_kinds_simps not_init_names fresh_unset)

lemma run_step: "step init_names quiet_kinds fresh (snd (run env))"
  unfolding run_def by (rule preservesE[OF preserves_main step_refl])

lemma is_O365_kind: "is_O365 ev \<longleftrightarrow> kind_of ev = KMail"
  by (cases ev) simp_all

lemma mail_calls_empty:
  assumes "kind_of ` set tr \<subseteq> quiet_kinds"
  shows "mail_calls tr = []"
proof -
  have "\<not> is_O365 ev" if "ev \<in> set tr" for ev
    using assms that by (auto simp: is_O365_kind quiet_kinds_def)
  then show ?thesis by (simp add: mail_calls_def filter_empty_conv)
qed

lemma run_no_mail: "mail_calls (trace (snd (run env))) = []"
  by (rule mail_calls_empty[OF kinds_of_trace[OF run_step]])

lemma send_mail_eq:
  "send_mail env message margs subject w =
    (case send_mail_body env message margs subject (emit (Enter ''send_mail'') w) of
       (Inl e, w1) \<Rightarrow> (Inr (), w1\<lparr>trace := trace w1 @ handler_logs e\<rparr>)
     | (Inr x, w1) \<Rightarrow> (Inr (), w1))"
proof -
  obtain r w1 where b: "send_mail_body env message margs subject (emit (Enter ''send_mail'') w) = (r, w1)"
    by (cases "send_mail_body env message margs subject (emit (Enter ''send_mail'') w)")
  show ?thesis
  proof (cases r)
    case (Inl e)
    from b[unfolded Inl] have "catchable e" by (rule mildD[OF mild_send_mail_body])
    with b Inl show ?thesis
      by (simp add: send_mail_def sbind_def enter_def try_except_def print_and_log_eq
          handler_logs_def)
  next
    case (Inr x)
    with b show ?thesis
      by (simp add: send_mail_def sbind_def enter_def try_except_def)
  qed
qed

lemma send_mail_returns: "\<exists>w'. send_mail env message margs subject w = (Inr (), w')"
  by (simp add: send_mail_eq split: prod.splits sum.splits)

lemma reachable_constructed:
  "fst (constructed env) = Inr () \<Longrightarrow> reachable env (snd (constructed env))"
  unfolding constructed_def by (rule r_init)

lemma constructed_matched_env:
  "constructed env_matched =
     (Inr (), \<lparr>attrs = init_attrs ''103.0.1264.37'' ''win64'' kvs0,
        trace = init_trace ''103.0.1264.37'' ''win64''\<rparr>)"
  unfolding constructed_def
  by (rule init_ok) (simp_all add: env_matched_def env_present_def props0_def)

subsection \<open>Claim C2\<close>

text \<open>
  C2. No method assigns \<^verbatim>\<open>BOT_FOLDERS\<close>: in every state an object can reach the attribute
  is unset, so every call of \<^verbatim>\<open>copy_to_path\<close> raises \<^verbatim>\<open>AttributeError\<close> on its first
  line, having copied nothing (the call adds its own entry to the trace and nothing
  else). No run of the script ever copies a file.
\<close>

theorem copy_to_path_always_raises:
  "(reachable env w \<longrightarrow>
      attrs w ''BOT_FOLDERS'' = None \<and>
      copy_to_path env w = (Inl (AttributeError ''BOT_FOLDERS''), emit (Enter ''copy_to_path'') w)) \<and>
   KCopy \<notin> kind_of ` set (trace (snd (run env)))"
proof (intro conjI impI)
  assume r: "reachable env w"
  then show u: "attrs w ''BOT_FOLDERS'' = None"
    by (simp add: reachable_unset not_init_names)
  then show "copy_to_path env w = (Inl (AttributeError ''BOT_FOLDERS''), emit (Enter ''copy_to_path'') w)"
    by (rule copy_to_path_unset)
next
  from kinds_of_trace[OF run_step] show "KCopy \<notin> kind_of ` set (trace (snd (run env)))"
    by (auto simp: quiet_kinds_def)
qed

theorem copy_to_path_always_raises_witness:
  "reachable env_matched (snd (constructed env_matched)) \<and>
   copy_to_path env_matched (snd (constructed env_matched)) =
     (Inl (AttributeError ''BOT_FOLDERS''), emit (Enter ''copy_to_path'') (snd (constructed env_matched)))"
proof -
  have r: "reachable env_matched (snd (constructed env_matched))"
    by (rule reachable_constructed) (simp add: constructed_matched_env)
  with copy_to_path_always_raises[of env_matched "snd (constructed env_matched)"] show ?thesis
    by simp
qed

subsection \<open>Claim C9\<close>

text \<open>
  C9. \<^verbatim>\<open>send_mail\<close> returns normally in every state: whatever the body of its \<^verbatim>\<open>try\<close>
  raises is caught, and \<^verbatim>\<open>str(e)\<close> and the traceback are logged. No method assigns
  \<^verbatim>\<open>token_mail\<close> or \<^verbatim>\<open>user_mail\<close>; where \<^verbatim>\<open>token_mail\<close> is unset the body raises
  \<^verbatim>\<open>AttributeError\<close> on its first line, before any call into the mail library, and on a
  constructed object the attribute it misses is \<^verbatim>\<open>token_mail\<close>. No run of the script ever
  calls the mail library.
\<close>

theorem send_mail_never_delivers:
  "(\<exists>w'. send_mail env message margs subject w = (Inr (), w')) \<and>
   (send_mail_body env message margs subject (emit (Enter ''send_mail'') w) = (Inl e, w1) \<longrightarrow>
      send_mail env message margs subject w = (Inr (), w1\<lparr>trace := trace w1 @ handler_logs e\<rparr>)) \<and>
   (attrs w ''token_mail'' = None \<longrightarrow>
      (\<exists>a. send_mail env message margs subject w =
         (Inr (), w\<lparr>trace := trace w @ Enter ''send_mail'' # handler_logs (AttributeError a)\<rparr>))) \<and>
   (reachable env w \<longrightarrow>
      attrs w ''token_mail'' = None \<and> attrs w ''user_mail'' = None \<and>
      send_mail env message margs subject w =
        (Inr (), w\<lparr>trace := trace w @ Enter ''send_mail'' # handler_logs (AttributeError ''token_mail'')\<rparr>)) \<and>
   mail_calls (trace (snd (run env))) = []"
proof (intro conjI impI)
  show "\<exists>w'. send_mail env message margs subject w = (Inr (), w')"
    by (rule send_mail_returns)
next
  assume "send_mail_body env message margs subject (emit (Enter ''send_mail'') w) = (Inl e, w1)"
  then show "send_mail env message margs subject w = (Inr (), w1\<lparr>trace := trace w1 @ handler_logs e\<rparr>)"
    by (simp add: send_mail_eq)
next
  assume "attrs w ''token_mail'' = None"
  then have "send_mail env message margs subject w =
      (Inr (), w\<lparr>trace := trace w @ Enter ''send_mail'' # handler_logs
        (AttributeError (if attrs w ''CLIENT_ID'' = None then ''CLIENT_ID'' else ''token_mail''))\<rparr>)"
    by (rule send_mail_unset)
  then show "\<exists>a. send_mail env message margs subject w =
      (Inr (), w\<lparr>trace := trace w @ Enter ''send_mail'' # handler_logs (AttributeError a)\<rparr>)"
    by (rule exI)
next
  assume r: "reachable env w"
  then show t: "attrs w ''token_mail'' = None"
    by (simp add: reachable_unset not_init_names)
  from r show "attrs w ''user_mail'' = None"
    by (simp add: reachable_unset not_init_names)
  from r have "attrs w ''CLIENT_ID'' \<noteq> None"
    by (rule reachable_set) (simp add: init_names_def)
  with t show "send_mail env message margs subject w =
      (Inr (), w\<lparr>trace := trace w @ Enter ''send_mail'' # handler_logs (AttributeError ''token_mail'')\<rparr>)"
    by (auto simp add: send_mail_unset)
next
  show "mail_calls (trace (snd (run env))) = []"
    by (rule run_no_mail)
qed

theorem send_mail_never_delivers_witness:
  "reachable env_matched (snd (constructed env_matched)) \<and>
   attrs (snd (constructed env_matched)) ''token_mail'' = None \<and>
   send_mail env_matched ''No se pudo descargar'' [] ''Error en driver'' (snd (constructed env_matched)) =
     (Inr (), (snd (constructed env_matched))\<lparr>trace := trace (snd (constructed env_matched)) @
        Enter ''send_mail'' # handler_logs (AttributeError ''token_mail'')\<rparr>) \<and>
   send_mail_body env_matched ''No se pudo descargar'' [] ''Error en driver''
       (emit (Enter ''send_mail'') (snd (constructed env_matched))) =
     (Inl (AttributeError ''token_mail''), emit (Enter ''send_mail'') (snd (constructed env_matched)))"
proof -
  have r: "reachable env_matched (snd (constructed env_matched))"
    by (rule reachable_constructed) (simp add: constructed_matched_env)
  have b: "send_mail_body env_matched ''No se pudo descargar'' [] ''Error en driver''
       (emit (Enter ''send_mail'') (snd (constructed env_matched))) =
     (Inl (AttributeError ''token_mail''), emit (Enter ''send_mail'') (snd (constructed env_matched)))"
    by (simp add: constructed_matched_env send_mail_body_def sbind_def getattr_def emit_def
        init_attrs_def early_attrs_def class_attrs_token_mail)
  from send_mail_never_delivers[of env_matched "''No se pudo descargar''" "[]" "''Error en driver''"
      "snd (constructed env_matched)" "AttributeError ''token_mail''"
      "emit (Enter ''send_mail'') (snd (constructed env_matched))"] r b
  show ?thesis by blast
qed

subsection \<open>The stages and the outcome of a run\<close>

lemma test_returns: "\<exists>b w'. test env w = (Inr b, w')"
  by (rule safeD[OF safe_test[of "\<lambda>w. True"]]) simp

lemma try_another_version_returns: "\<exists>b w'. try_another_version env w = (Inr b, w')"
  by (rule safeD[OF safe_try_another_version[of "\<lambda>w. True"]]) simp

lemma download_returns:
  assumes "attrs w ''url'' \<noteq> None"
  shows "\<exists>b w'. download env w = (Inr b, w')"
  by (rule safeD[OF safe_download[OF assms] step_refl])

lemma reachable_stage1:
  "fst (constructed env) = Inr () \<Longrightarrow> reachable env (snd (stage1 env))"
  unfolding stage1_def by (intro r_test reachable_constructed)

lemma reachable_matched:
  "fst (constructed env) = Inr () \<Longrightarrow> reachable env (snd (matched env))"
  unfolding matched_def by (intro r_download reachable_stage1)

lemma reachable_stage2:
  "fst (constructed env) = Inr () \<Longrightarrow> reachable env (snd (stage2 env))"
  unfolding stage2_def by (intro r_test reachable_matched)

lemma reachable_stage3:
  "fst (constructed env) = Inr () \<Longrightarrow> reachable env (snd (stage3 env))"
  unfolding stage3_def by (intro r_try_another_version reachable_stage2)

lemma matched_returns:
  assumes "fst (constructed env) = Inr ()"
  shows "\<exists>b. matched env = (Inr b, snd (matched env))"
proof -
  have "attrs (snd (stage1 env)) ''url'' \<noteq> None"
    by (rule reachable_set[OF reachable_stage1[OF assms]]) (simp add: not_init_names)
  from download_returns[OF this, of env] show ?thesis
    by (auto simp: matched_def)
qed

lemma run_unconstructed:
  assumes "fst (constructed env) = Inl e"
  shows "run env = (Inl e, snd (constructed env))"
proof -
  from assms obtain w0 where "init env ''win64'' fresh = (Inl e, w0)"
    by (cases "init env ''win64'' fresh") (simp add: constructed_def)
  then show ?thesis
    by (simp add: run_def main_def constructed_def sbind_def)
qed

lemma run_stage1:
  assumes "fst (constructed env) = Inr ()" and "fst (stage1 env) = Inr True"
  shows "run env = (Inr (), (snd (stage1 env))\<lparr>trace := trace (snd (stage1 env)) @
           logs ''Driver working, all right'' [] ''debug''\<rparr>)"
proof -
  from assms(1) obtain w0 where c: "init env ''win64'' fresh = (Inr (), w0)"
    by (cases "init env ''win64'' fresh") (simp add: constructed_def)
  from assms(2) c obtain w1 where t: "test env w0 = (Inr True, w1)"
    by (cases "test env w0") (simp add: stage1_def constructed_def)
  from c t show ?thesis
    by (simp add: run_def main_def constructed_def stage1_def sbind_def ret_def print_and_log_eq)
qed

lemma run_copy:
  assumes "reachable env w"
  shows "sbind (copy_to_path env) (\<lambda>_. print_and_log ''Driver working, all right'' [] ''debug'') w =
    (Inl (AttributeError ''BOT_FOLDERS''), emit (Enter ''copy_to_path'') w)"
proof -
  from assms have "attrs w ''BOT_FOLDERS'' = None"
    by (simp add: reachable_unset not_init_names)
  then show ?thesis by (simp add: sbind_def copy_to_path_unset)
qed

lemma run_stage2:
  assumes "fst (constructed env) = Inr ()" and "fst (stage1 env) = Inr False"
    and "fst (stage2 env) = Inr True"
  shows "run env = (Inl (AttributeError ''BOT_FOLDERS''), emit (Enter ''copy_to_path'') (snd (stage2 env)))"
proof -
  from assms(1) obtain w0 where c: "init env ''win64'' fresh = (Inr (), w0)"
    by (cases "init env ''win64'' fresh") (simp add: constructed_def)
  from assms(2) c obtain w1 where t: "test env w0 = (Inr False, w1)"
    by (cases "test env w0") (simp add: stage1_def constructed_def)
  from matched_returns[OF assms(1)] c t obtain b w2 where d: "download env w1 = (Inr b, w2)"
    by (auto simp: matched_def stage1_def constructed_def)
  from assms(3) c t d obtain w3 where t2: "test env w2 = (Inr True, w3)"
    by (cases "test env w2") (simp add: stage2_def matched_def stage1_def constructed_def)
  from c t d t2 have w3: "snd (stage2 env) = w3"
    by (simp add: stage2_def matched_def stage1_def constructed_def)
  from reachable_stage2[OF assms(1)] w3 have "reachable env w3" by simp
  from run_copy[OF this] c t d t2 w3 show ?thesis
    by (simp add: run_def main_def sbind_def copy_to_path_unset
        reachable_unset[OF \<open>reachable env w3\<close>] not_init_names)
qed

lemma run_stage3:
  assumes "fst (constructed env) = Inr ()" and "fst (stage1 env) = Inr False"
    and "fst (stage2 env) = Inr False" and "fst (stage3 env) = Inr True"
  shows "run env = (Inl (AttributeError ''BOT_FOLDERS''), emit (Enter ''copy_to_path'') (snd (stage3 env)))"
proof -
  from assms(1) obtain w0 where c: "init env ''win64'' fresh = (Inr (), w0)"
    by (cases "init env ''win64'' fresh") (simp add: constructed_def)
  from assms(2) c obtain w1 where t: "test env w0 = (Inr False, w1)"
    by (cases "test env w0") (simp add: stage1_def constructed_def)
  from matched_returns[OF assms(1)] c t obtain b w2 where d: "download env w1 = (Inr b, w2)"
    by (auto simp: matched_def stage1_def constructed_def)
  from assms(3) c t d obtain w3 where t2: "test env w2 = (Inr False, w3)"
    by (cases "test env w2") (simp add: stage2_def matched_def stage1_def constructed_def)
  from assms(4) c t d t2 obtain w4 where a: "try_another_version env w3 = (Inr True, w4)"
    by (cases "try_another_version env w3")
      (simp add: stage3_def stage2_def matched_def stage1_def constructed_def)
  from c t d t2 a have w4: "snd (stage3 env) = w4"
    by (simp add: stage3_def stage2_def matched_def stage1_def constructed_def)
  from reachable_stage3[OF assms(1)] w4 have r: "reachable env w4" by simp
  from c t d t2 a w4 show ?thesis
    by (simp add: run_def main_def sbind_def copy_to_path_unset
        reachable_unset[OF r] not_init_names)
qed

lemma run_exhausted:
  assumes "fst (constructed env) = Inr ()" and "fst (stage1 env) = Inr False"
    and "fst (stage2 env) = Inr False" and "fst (stage3 env) = Inr False"
  shows "run env = (Inl (SystemExit None),
           (snd (stage3 env))\<lparr>trace := trace (snd (stage3 env)) @ gave_up\<rparr>)"
proof -
  from assms(1) obtain w0 where c: "init env ''win64'' fresh = (Inr (), w0)"
    by (cases "init env ''win64'' fresh") (simp add: constructed_def)
  from assms(2) c obtain w1 where t: "test env w0 = (Inr False, w1)"
    by (cases "test env w0") (simp add: stage1_def constructed_def)
  from matched_returns[OF assms(1)] c t obtain b w2 where d: "download env w1 = (Inr b, w2)"
    by (auto simp: matched_def stage1_def constructed_def)
  from assms(3) c t d obtain w3 where t2: "test env w2 = (Inr False, w3)"
    by (cases "test env w2") (simp add: stage2_def matched_def stage1_def constructed_def)
  from assms(4) c t d t2 obtain w4 where a: "try_another_version env w3 = (Inr False, w4)"
    by (cases "try_another_version env w3")
      (simp add: stage3_def stage2_def matched_def stage1_def constructed_def)
  from c t d t2 a have w4: "snd (stage3 env) = w4"
    by (simp add: stage3_def stage2_def matched_def stage1_def constructed_def)
  from reachable_stage3[OF assms(1)] w4 have r: "reachable env w4" by simp
  have cid: "attrs w4 ''CLIENT_ID'' \<noteq> None"
    by (rule reachable_set[OF r]) (simp add: init_names_def)
  from c t d t2 a w4 cid show ?thesis
    by (auto simp add: run_def main_def sbind_def print_and_log_eq send_mail_unset raise_def
        reachable_unset[OF r] not_init_names gave_up_def)
qed

subsection \<open>The scan and the loop over the candidates\<close>

lemma subscript_is_dict: "subscript u k = Inr v \<Longrightarrow> is_dict u"
  by (cases u) auto

lemma matches_is_dict:
  assumes "matches u w = (Inr b, w')"
  shows "is_dict u"
proof (cases "subscript u ''Name''")
  case (Inl e)
  with assms show ?thesis by (simp add: matches_def sbind_simps)
next
  case (Inr v)
  then show ?thesis by (rule subscript_is_dict)
qed

lemma list_urls_dicts:
  "list_urls us w = (Inr cs, w') \<Longrightarrow> list_all is_dict cs"
proof (induction us arbitrary: cs w w')
  case Nil
  then show ?case by simp
next
  case (Cons u us)
  obtain r w1 where m: "matches u w = (r, w1)" by (cases "matches u w")
  obtain r2 w2 where l: "list_urls us w1 = (r2, w2)" by (cases "list_urls us w1")
  from Cons.prems m l obtain keep rest where r: "r = Inr keep" and r2: "r2 = Inr rest"
    and cs: "cs = (if keep then u # rest else rest)"
    by (cases r; cases r2) auto
  from Cons.IH[OF l[unfolded r2]] have "list_all is_dict rest" .
  moreover from m r have "is_dict u" by (auto intro: matches_is_dict)
  ultimately show ?case using cs by simp
qed

lemma sbind_InrE:
  assumes "sbind f g w = (Inr y, w')"
  obtains x w1 where "f w = (Inr x, w1)" and "g x w1 = (Inr y, w')"
proof -
  obtain r w1 where f: "f w = (r, w1)" by (cases "f w")
  show ?thesis
  proof (cases r)
    case (Inl e)
    with f assms show ?thesis by (simp add: sbind_def)
  next
    case (Inr x)
    with f assms have "g x w1 = (Inr y, w')" by (simp add: sbind_def)
    with f Inr that show ?thesis by blast
  qed
qed

lemma scan_dicts:
  assumes "scan env w = (Inr cs, w')"
  shows "list_all is_dict cs"
  using assms unfolding scan_def
  by (elim sbind_InrE) (erule list_urls_dicts)

lemma step_empty_attrs: "step {} S w w' \<Longrightarrow> attrs w' = attrs w"
  by (rule ext) (simp add: step_def)

lemma download_attrs: "attrs (snd (download env w)) = attrs w"
  by (rule step_empty_attrs[OF preservesE[OF preserves_download[of UNIV "{}" w env] step_refl]]) simp

lemma test_attrs: "attrs (snd (test env w)) = attrs w"
  by (rule step_empty_attrs[OF preservesE[OF preserves_test[of UNIV "{}" w env] step_refl]]) simp

lemma attempt_prefix:
  "attempt env (PDict kvs) w =
     sbind (download env) (\<lambda>download_status.
       if download_status then
         sbind (test env) (\<lambda>test_status.
         if test_status then
           sbind (getattr ''url'') (\<lambda>url1.
           sbind (print_and_log
                    ''Download finished and working of another version with url: {}''
                    [Val url1] ''info'') (\<lambda>_.
           sbind (lift (dict_get (PDict kvs) ''Name'')) (\<lambda>version.
           sbind (print_and_log ''version: {}'' [Val version] ''debug'') (\<lambda>_.
           ret True))))
         else ret False)
       else ret False) (begin_attempt (PDict kvs) w)"
  by (simp add: attempt_def sbind_print_and_log sbind_lift sbind_setattr prop_of_def
      begin_attempt_def split: option.splits)

lemma attempt_download_failed:
  assumes "download env (begin_attempt (PDict kvs) w) = (Inr False, w2)"
  shows "attempt env (PDict kvs) w = (Inr False, w2)"
  by (simp add: attempt_prefix sbind_def[of "download env"] assms ret_def)

lemma attempt_test_failed:
  assumes "download env (begin_attempt (PDict kvs) w) = (Inr True, w2)"
    and "test env w2 = (Inr False, w3)"
  shows "attempt env (PDict kvs) w = (Inr False, w3)"
  by (simp add: attempt_prefix sbind_def[of "download env"] sbind_def[of "test env"] assms ret_def)

lemma attempt_ok:
  assumes d: "download env (begin_attempt (PDict kvs) w) = (Inr True, w2)"
    and t: "test env w2 = (Inr True, w3)"
  shows "attempt env (PDict kvs) w =
    (Inr True, w3\<lparr>trace := trace w3 @ attempt_succeeded (PDict kvs)\<rparr>)"
proof -
  from download_attrs[of env "begin_attempt (PDict kvs) w"] d
  have "attrs w2 = attrs (begin_attempt (PDict kvs) w)" by simp
  moreover from test_attrs[of env w2] t have "attrs w3 = attrs w2" by simp
  ultimately have u: "attrs w3 ''url'' = Some (prop_of kvs ''Url'')"
    by (simp add: begin_attempt_def)
  show ?thesis
    by (simp add: attempt_prefix sbind_def[of "download env"] sbind_def[of "test env"] d t
        sbind_getattr_set[OF u] sbind_print_and_log sbind_lift dict_get_PDict ret_def
        attempt_succeeded_def del: dict_get.simps)
qed

lemma attempt_dict_cases:
  obtains
    (download_failed) w2 where "download env (begin_attempt (PDict kvs) w) = (Inr False, w2)"
      and "attempt env (PDict kvs) w = (Inr False, w2)"
  | (test_failed) w2 w3 where "download env (begin_attempt (PDict kvs) w) = (Inr True, w2)"
      and "test env w2 = (Inr False, w3)" and "attempt env (PDict kvs) w = (Inr False, w3)"
  | (ok) w2 w3 where "download env (begin_attempt (PDict kvs) w) = (Inr True, w2)"
      and "test env w2 = (Inr True, w3)"
      and "attempt env (PDict kvs) w = (Inr True, w3\<lparr>trace := trace w3 @ attempt_succeeded (PDict kvs)\<rparr>)"
proof -
  have "attrs (begin_attempt (PDict kvs) w) ''url'' \<noteq> None" by (simp add: begin_attempt_def)
  from download_returns[OF this, of env] obtain b w2
    where d: "download env (begin_attempt (PDict kvs) w) = (Inr b, w2)" by blast
  show ?thesis
  proof (cases b)
    case False
    with d attempt_download_failed[of env kvs w w2] download_failed show ?thesis by simp
  next
    case True
    from test_returns[of env w2] obtain b2 w3 where t: "test env w2 = (Inr b2, w3)" by blast
    show ?thesis
    proof (cases b2)
      case False
      with d True t attempt_test_failed[of env kvs w w2 w3] test_failed show ?thesis by simp
    next
      case b2: True
      with d True t attempt_ok[of env kvs w w2 w3] ok show ?thesis by simp
    qed
  qed
qed

lemma http_gets_append: "http_gets (xs @ ys) = http_gets xs @ http_gets ys"
  by (simp add: http_gets_def)

lemma http_gets_kinds:
  assumes "kind_of ` set evs \<subseteq> S" and "KHttp \<notin> S"
  shows "http_gets evs = []"
proof -
  have "\<not> is_HttpGet ev" if "ev \<in> set evs" for ev
    using assms that by (cases ev) auto
  then show ?thesis by (simp add: http_gets_def filter_empty_conv)
qed

lemma invoked_append: "invoked name (xs @ ys) = invoked name xs + invoked name ys"
  by (simp add: invoked_def)

lemma invoked_kinds:
  assumes "kind_of ` set evs \<subseteq> S" and "KEnter name \<notin> S"
  shows "invoked name evs = 0"
proof -
  have "ev \<noteq> Enter name" if "ev \<in> set evs" for ev
    using assms that by auto
  then show ?thesis by (simp add: invoked_def filter_empty_conv)
qed

lemma test_trace: "\<exists>evs. trace (snd (test env w)) = trace w @ evs \<and> http_gets evs = []"
proof -
  have "step {} {KEnter ''test'', KLog, KDriver} w (snd (test env w))"
    by (rule preservesE[OF preserves_test step_refl]) simp
  then obtain evs where "trace (snd (test env w)) = trace w @ evs"
    and "kind_of ` set evs \<subseteq> {KEnter ''test'', KLog, KDriver}"
    unfolding step_def by blast
  moreover from this(2) have "http_gets evs = []" by (rule http_gets_kinds) simp
  ultimately show ?thesis by blast
qed

lemma download_trace:
  assumes "attrs w ''url'' = Some u"
  shows "\<exists>evs. trace (snd (download env w)) = trace w @ evs \<and> http_gets evs = [HttpGet u]"
proof (cases "requests_get env (trace w @ download_started u) u")
  case (Inl msg)
  then show ?thesis
    by (simp add: download_eq[OF assms] trace_simps)
next
  case (Inr r)
  show ?thesis
  proof (cases "status_code r = 200")
    case False
    with Inr show ?thesis by (simp add: download_eq[OF assms] trace_simps)
  next
    case True
    with Inr show ?thesis
      by (cases "extractall env (trace w @ download_started u @ [HttpGet u]) (content r)")
        (simp_all add: download_eq[OF assms] trace_simps)
  qed
qed

lemma attempt_trace:
  assumes "attempt env (PDict kvs) w = (r, w')"
  shows "(\<exists>evs. trace w' = trace w @ evs \<and> http_gets evs = [HttpGet (prop_of kvs ''Url'')]) \<and>
     attrs w' = (attrs w)(''url'' \<mapsto> prop_of kvs ''Url'')"
proof -
  let ?w1 = "begin_attempt (PDict kvs) w"
  have u: "attrs ?w1 ''url'' = Some (prop_of kvs ''Url'')" by (simp add: begin_attempt_def)
  from download_trace[OF u, of env] obtain evs1
    where d1: "trace (snd (download env ?w1)) = trace ?w1 @ evs1"
      and g1: "http_gets evs1 = [HttpGet (prop_of kvs ''Url'')]" by blast
  have t1: "trace ?w1 = trace w @ logs ''{}'' [Val (PDict kvs)] ''debug''"
    and a1: "attrs ?w1 = (attrs w)(''url'' \<mapsto> prop_of kvs ''Url'')"
    by (simp_all add: begin_attempt_def)
  have g0: "http_gets (logs m a l) = []" for m a l by (simp add: http_gets_def logs_def)
  show ?thesis
  proof (cases rule: attempt_dict_cases[of env kvs w])
    case (download_failed w2)
    with assms have "w' = w2" by simp
    with download_failed(1) d1 t1 g1 a1 download_attrs[of env ?w1] show ?thesis
      by (auto simp: http_gets_append g0)
  next
    case (test_failed w2 w3)
    with assms have w': "w' = w3" by simp
    from test_trace[of env w2] test_failed(2) obtain evs2
      where "trace w3 = trace w2 @ evs2" and "http_gets evs2 = []" by auto
    with test_failed(1,2) w' d1 t1 g1 a1 download_attrs[of env ?w1] test_attrs[of env w2]
    show ?thesis
      by (auto simp: http_gets_append g0)
  next
    case (ok w2 w3)
    with assms have w': "w' = w3\<lparr>trace := trace w3 @ attempt_succeeded (PDict kvs)\<rparr>" by simp
    from test_trace[of env w2] ok(2) obtain evs2
      where "trace w3 = trace w2 @ evs2" and "http_gets evs2 = []" by auto
    moreover have "http_gets (attempt_succeeded (PDict kvs)) = []"
      by (simp add: attempt_succeeded_def http_gets_append g0)
    ultimately show ?thesis
      using ok(1,2) w' d1 t1 g1 a1 download_attrs[of env ?w1] test_attrs[of env w2]
      by (auto simp: http_gets_append g0)
  qed
qed

lemma attempt_dict_returns: "\<exists>b w'. attempt env (PDict kvs) w = (Inr b, w')"
proof (cases rule: attempt_dict_cases[of env kvs w])
  case (download_failed w2)
  then show ?thesis by blast
next
  case (test_failed w2 w3)
  then show ?thesis by blast
next
  case (ok w2 w3)
  then show ?thesis by blast
qed

lemma attempt_returns: "is_dict c \<Longrightarrow> \<exists>b w'. attempt env c w = (Inr b, w')"
  by (cases c) (simp_all add: attempt_dict_returns)

lemma try_loop_returns:
  "list_all is_dict cs \<Longrightarrow> \<exists>b w'. try_loop env cs w = (Inr b, w')"
proof (induction cs arbitrary: w)
  case Nil
  have "try_loop env [] w = (Inr False, w)" by simp
  then show ?case by blast
next
  case (Cons c cs)
  then have "is_dict c" and cs: "list_all is_dict cs" by simp_all
  from attempt_returns[OF this(1), of env w] obtain b w1 where a: "attempt env c w = (Inr b, w1)"
    by blast
  show ?case
  proof (cases b)
    case True
    with a have "try_loop env (c # cs) w = (Inr True, w1)" by simp
    then show ?thesis by blast
  next
    case False
    with a have "try_loop env (c # cs) w = try_loop env cs w1" by simp
    with Cons.IH[OF cs, of w1] show ?thesis by simp
  qed
qed

lemma try_loop_first_success:
  assumes "try_loop env pre w = (Inr False, wk)" and "attempt env c wk = (Inr True, w')"
  shows "try_loop env (pre @ c # post) w = (Inr True, w')"
  using assms
proof (induction pre arbitrary: w)
  case Nil
  then show ?case by simp
next
  case (Cons p ps)
  obtain r w1 where a: "attempt env p w = (r, w1)" by (cases "attempt env p w")
  with Cons.prems(1) have r: "r = Inr False" and l: "try_loop env ps w1 = (Inr False, wk)"
    by (cases r; auto split: bool.splits)+
  from Cons.IH[OF l Cons.prems(2)] a r show ?case by simp
qed

lemma try_loop_success_split:
  assumes "try_loop env cs w = (Inr True, w')"
  shows "\<exists>pre c post wk. cs = pre @ c # post \<and> try_loop env pre w = (Inr False, wk) \<and>
     attempt env c wk = (Inr True, w')"
  using assms
proof (induction cs arbitrary: w)
  case Nil
  then show ?case by simp
next
  case (Cons c cs)
  obtain r w1 where a: "attempt env c w = (r, w1)" by (cases "attempt env c w")
  show ?case
  proof (cases "r = Inr True")
    case True
    with a Cons.prems have "w1 = w'" by simp
    with a True have "c # cs = [] @ c # cs \<and> try_loop env [] w = (Inr False, w) \<and>
        attempt env c w = (Inr True, w')" by simp
    then show ?thesis by blast
  next
    case False
    with a Cons.prems have r: "r = Inr False" and l: "try_loop env cs w1 = (Inr True, w')"
      by (cases r; auto split: bool.splits)+
    from Cons.IH[OF l] obtain pre c' post wk where "cs = pre @ c' # post"
      and "try_loop env pre w1 = (Inr False, wk)" and "attempt env c' wk = (Inr True, w')"
      by blast
    with a r have "c # cs = (c # pre) @ c' # post \<and> try_loop env (c # pre) w = (Inr False, wk) \<and>
        attempt env c' wk = (Inr True, w')" by simp
    then show ?thesis by blast
  qed
qed

subsection \<open>The filter of the listing\<close>

lemma split_nonempty: "split sep s \<noteq> []"
  by (induction s) (auto split: list.splits)

lemma item0_split: "item0 (split CHR ''.'' s) = Inr (major s)"
proof (induction s)
  case Nil
  show ?case by (simp add: major_def)
next
  case (Cons c cs)
  show ?case
  proof (cases "c = CHR ''.''")
    case True
    then show ?thesis by (simp add: major_def)
  next
    case False
    obtain p ps where s: "split CHR ''.'' cs = p # ps"
      using split_nonempty[of "CHR ''.''" cs] by (cases "split CHR ''.'' cs") auto
    with Cons.IH have "p = major cs" by simp
    with s False show ?thesis by (simp add: major_def)
  qed
qed

lemma entry_cases:
  assumes "entry u"
  obtains kvs n where "u = PDict kvs" and "map_of kvs ''Name'' = Some (PStr n)" and "name_of u = n"
proof (cases u)
  case (PDict kvs)
  with assms obtain n where "map_of kvs ''Name'' = Some (PStr n)"
    by (auto split: option.splits pyval.splits)
  with PDict that show ?thesis by simp
qed (use assms in auto)

lemma matches_entry:
  assumes "entry u" and "attrs w ''version'' = Some (PStr v)" and "attrs w ''os_type'' = Some (PStr t)"
  shows "matches u w = (Inr (selected v t u), w)"
proof -
  from assms(1) obtain kvs n where u: "u = PDict kvs" and n: "map_of kvs ''Name'' = Some (PStr n)"
    and nm: "name_of u = n" by (rule entry_cases)
  show ?thesis
    unfolding u matches_def
    using nm[unfolded u]
    by (simp add: sbind_lift sbind_getattr_set[OF assms(2)] sbind_getattr_set[OF assms(3)] n
        ebind_def item0_split ret_def lift_def selected_def del: name_of.simps)
qed

lemma list_urls_filter:
  assumes "list_all entry items" and "attrs w ''version'' = Some (PStr v)"
    and "attrs w ''os_type'' = Some (PStr t)"
  shows "list_urls items w = (Inr (filter (selected v t) items), w)"
  using assms(1)
proof (induction items)
  case Nil
  show ?case by simp
next
  case (Cons u us)
  then have "entry u" and "list_all entry us" by simp_all
  with Cons.IH matches_entry[OF this(1) assms(2,3)] show ?case by simp
qed

lemma scan_eq:
  assumes "attrs w ''BASE_URL'' = Some b"
    and "requests_get env (trace w @ scan_started) b = Inr res"
    and "xmltodict_parse env (body_text res) = Inr results"
    and "blobs results = Inr urls" and "py_iter urls = Inr items"
  shows "scan env w = list_urls items (w\<lparr>trace := trace w @ scan_started @ [HttpGet b]\<rparr>)"
  unfolding scan_def
  by (simp add: sbind_print_and_log sbind_getattr_set assms sbind_extern sbind_lift
      scan_started_def[symmetric])

lemma constructed_alt:
  "constructed env_alt =
     (Inr (), \<lparr>attrs = init_attrs ''103.0.1264.37'' ''win64'' kvs0,
        trace = init_trace ''103.0.1264.37'' ''win64''\<rparr>)"
  unfolding constructed_def
  by (rule init_ok) (simp_all add: env_alt_def env_present_def props0_def)

lemma constructed_none:
  "constructed env_none =
     (Inr (), \<lparr>attrs = init_attrs ''103.0.1264.37'' ''win64'' kvs0,
        trace = init_trace ''103.0.1264.37'' ''win64''\<rparr>)"
  unfolding constructed_def
  by (rule init_ok) (simp_all add: env_none_def env_alt_def env_present_def props0_def)

lemma blobs_index0: "blobs index0 = Inr (PList listing0)"
  by (simp add: blobs_def index0_def ebind_def)

lemma entry_entry_of: "entry (entry_of n)"
  by (simp add: entry_of_def)

lemma name_of_entry_of: "name_of (entry_of n) = n"
  by (simp add: entry_of_def)

lemma url_of_entry_of: "url_of (entry_of n) = PStr (''https://store/'' @ n)"
  by (simp add: entry_of_def prop_of_def)

lemma listing0_entries: "list_all entry listing0"
  by (simp add: listing0_def entry_entry_of)

lemma major_simps:
  "major [] = []" "major (c # cs) = (if c = CHR ''.'' then [] else c # major cs)"
  by (simp_all add: major_def)

lemma selected_listing0:
  "filter (selected ''103.0.1264.37'' ''win64'') listing0 =
     [entry_of ''103.0.1264.44/edgedriver_win64.zip'',
      entry_of ''103.0.1264.49/edgedriver_win64.zip'',
      entry_of ''103.0.1264.62/edgedriver_win64.zip'']"
  by (simp add: listing0_def selected_def name_of_entry_of major_simps sublist_code)

lemma prop_of_kvs0:
  "prop_of kvs0 ''base_url'' = PStr ''https://index''"
  "prop_of kvs0 ''driver_name'' = PStr ''msedgedriver.exe''"
  by (simp_all add: prop_of_def kvs0_def)

subsection \<open>Claim C4\<close>

text \<open>
  C4. When the index answers with a well-formed listing, the scan returns exactly the
  entries whose name has the major version of the local browser (what stands before the
  first dot) and contains the OS tag, in the order of the listing: the result is the
  listing filtered by that predicate, nothing is sorted.
\<close>

theorem scan_selects_matching_entries:
  assumes "attrs w ''version'' = Some (PStr v)" and "attrs w ''os_type'' = Some (PStr t)"
    and "attrs w ''BASE_URL'' = Some b"
    and "requests_get env (trace w @ scan_started) b = Inr res"
    and "xmltodict_parse env (body_text res) = Inr results"
    and "blobs results = Inr (PList items)" and "list_all entry items"
  shows "scan env w =
    (Inr (filter (selected v t) items), w\<lparr>trace := trace w @ scan_started @ [HttpGet b]\<rparr>)"
proof -
  have "scan env w = list_urls items (w\<lparr>trace := trace w @ scan_started @ [HttpGet b]\<rparr>)"
    by (rule scan_eq[OF assms(3,4,5,6)]) simp
  also have "\<dots> = (Inr (filter (selected v t) items), w\<lparr>trace := trace w @ scan_started @ [HttpGet b]\<rparr>)"
    by (rule list_urls_filter[OF assms(7)]) (simp_all add: assms(1,2))
  finally show ?thesis .
qed

lemma attrs_constructed_alt:
  "attrs (snd (constructed env_alt)) ''version'' = Some (PStr ''103.0.1264.37'')"
  "attrs (snd (constructed env_alt)) ''os_type'' = Some (PStr ''win64'')"
  "attrs (snd (constructed env_alt)) ''BASE_URL'' = Some (PStr ''https://index'')"
  "attrs (snd (constructed env_alt)) ''DRIVER_NAME'' = Some (PStr ''msedgedriver.exe'')"
  by (simp_all add: constructed_alt init_attrs_version init_attrs_os_type init_attrs_BASE_URL
      init_attrs_DRIVER_NAME prop_of_kvs0)

lemma env_alt_index:
  "requests_get env_alt tr (PStr ''https://index'') =
     Inr \<lparr>status_code = 200, content = [], body_text = ''<EnumerationResults/>''\<rparr>"
  "xmltodict_parse env_alt s = Inr index0"
  by (simp_all add: env_alt_def env_present_def)

theorem scan_selects_matching_entries_witness:
  "list_all entry listing0 \<and>
   fst (scan env_alt (snd (constructed env_alt))) =
     Inr [entry_of ''103.0.1264.44/edgedriver_win64.zip'',
          entry_of ''103.0.1264.49/edgedriver_win64.zip'',
          entry_of ''103.0.1264.62/edgedriver_win64.zip'']"
proof -
  let ?w = "snd (constructed env_alt)"
  have "scan env_alt ?w =
    (Inr (filter (selected ''103.0.1264.37'' ''win64'') listing0),
     ?w\<lparr>trace := trace ?w @ scan_started @ [HttpGet (PStr ''https://index'')]\<rparr>)"
    by (rule scan_selects_matching_entries[OF attrs_constructed_alt(1,2,3) env_alt_index
          blobs_index0 listing0_entries])
  then show ?thesis by (simp add: selected_listing0 listing0_entries)
qed

subsection \<open>What the loop leaves behind\<close>

lemma added_append: "trace w' = trace w @ evs \<Longrightarrow> added w w' = evs"
  by (simp add: added_def)

lemma attempt_trace_dict:
  assumes "is_dict c" and "attempt env c w = (r, w')"
  shows "(\<exists>evs. trace w' = trace w @ evs \<and> http_gets evs = [HttpGet (url_of c)]) \<and>
     attrs w' = (attrs w)(''url'' \<mapsto> url_of c)"
proof (cases c)
  case (PDict kvs)
  with attempt_trace[of env kvs w r w'] assms(2) show ?thesis by simp
qed (use assms(1) in auto)

lemma try_loop_failed_trace:
  assumes "list_all is_dict cs" and "try_loop env cs w = (Inr False, w')"
  shows "(\<exists>evs. trace w' = trace w @ evs \<and> http_gets evs = map (\<lambda>c. HttpGet (url_of c)) cs) \<and>
     (cs \<noteq> [] \<longrightarrow> attrs w' = (attrs w)(''url'' \<mapsto> url_of (last cs))) \<and>
     (cs = [] \<longrightarrow> w' = w)"
  using assms
proof (induction cs arbitrary: w)
  case Nil
  then show ?case by (simp add: http_gets_def)
next
  case (Cons c cs)
  then have c: "is_dict c" and cs: "list_all is_dict cs" by simp_all
  obtain r w1 where a: "attempt env c w = (r, w1)" by (cases "attempt env c w")
  with Cons.prems(2) have r: "r = Inr False" and l: "try_loop env cs w1 = (Inr False, w')"
    by (cases r; auto split: bool.splits)+
  from attempt_trace_dict[OF c a] obtain evs1 where t1: "trace w1 = trace w @ evs1"
    and g1: "http_gets evs1 = [HttpGet (url_of c)]"
    and a1: "attrs w1 = (attrs w)(''url'' \<mapsto> url_of c)" by blast
  from Cons.IH[OF cs l] obtain evs2 where t2: "trace w' = trace w1 @ evs2"
    and g2: "http_gets evs2 = map (\<lambda>c. HttpGet (url_of c)) cs"
    and a2: "cs \<noteq> [] \<longrightarrow> attrs w' = (attrs w1)(''url'' \<mapsto> url_of (last cs))"
    and e2: "cs = [] \<longrightarrow> w' = w1" by blast
  from t1 t2 have "trace w' = trace w @ (evs1 @ evs2)" by simp
  moreover from g1 g2 have "http_gets (evs1 @ evs2) = map (\<lambda>c. HttpGet (url_of c)) (c # cs)"
    by (simp add: http_gets_append)
  moreover from a1 a2 e2 have "attrs w' = (attrs w)(''url'' \<mapsto> url_of (last (c # cs)))"
    by (cases "cs = []") simp_all
  ultimately show ?case by blast
qed

lemma try_loop_success_trace:
  assumes "list_all is_dict pre" and "is_dict c" and "try_loop env pre w = (Inr False, wk)"
    and "attempt env c wk = (Inr True, w')"
  shows "\<exists>evs. trace w' = trace w @ evs \<and> http_gets evs = map (\<lambda>c. HttpGet (url_of c)) (pre @ [c])"
proof -
  from try_loop_failed_trace[OF assms(1,3)] obtain evs1 where t1: "trace wk = trace w @ evs1"
    and g1: "http_gets evs1 = map (\<lambda>c. HttpGet (url_of c)) pre" by blast
  from attempt_trace_dict[OF assms(2,4)] obtain evs2 where t2: "trace w' = trace wk @ evs2"
    and g2: "http_gets evs2 = [HttpGet (url_of c)]" by blast
  from t1 t2 have "trace w' = trace w @ (evs1 @ evs2)" by simp
  moreover from g1 g2 have "http_gets (evs1 @ evs2) = map (\<lambda>c. HttpGet (url_of c)) (pre @ [c])"
    by (simp add: http_gets_append)
  ultimately show ?thesis by blast
qed

subsection \<open>\<^verbatim>\<open>try_another_version\<close> as a whole\<close>

lemma try_another_version_scanned:
  assumes "scan env (emit (Enter ''try_another_version'') w) = (Inr cs, w1)"
  shows "try_another_version env w = try_loop env cs w1"
proof -
  from scan_dicts[OF assms] have "list_all is_dict cs" .
  from try_loop_returns[OF this, of env w1] obtain b w' where "try_loop env cs w1 = (Inr b, w')"
    by blast
  with assms show ?thesis
    by (simp add: try_another_version_def sbind_enter emit_def try_except_def
        sbind_def[of "scan env"])
qed

lemma try_another_version_scan_failed:
  assumes "scan env (emit (Enter ''try_another_version'') w) = (Inl e, w1)"
  shows "try_another_version env w =
    (Inr False, snd (send_mail env
        ''Fallo la descarga de otra version del driver, por favor revise manualmente. Error{}''
        [StrOf e] ''Error en descarga de Driver alternativo a version actual''
        (w1\<lparr>trace := trace w1 @ scan_failed e\<rparr>)))"
proof -
  let ?mail = "send_mail env
        ''Fallo la descarga de otra version del driver, por favor revise manualmente. Error{}''
        [StrOf e] ''Error en descarga de Driver alternativo a version actual''"
  from assms have c: "catchable e" by (rule mildD[OF mild_scan])
  obtain w2 where s: "?mail (w1\<lparr>trace := trace w1 @ scan_failed e\<rparr>) = (Inr (), w2)"
    using send_mail_returns by blast
  have "try_another_version env w =
      sbind ?mail (\<lambda>_. ret False) (w1\<lparr>trace := trace w1 @ scan_failed e\<rparr>)"
    using assms c unfolding try_another_version_def
    by (simp add: sbind_enter emit_def try_except_def sbind_def[of "scan env"]
        sbind_print_and_log scan_failed_def handler_logs_def)
  also have "\<dots> = (Inr False, w2)"
    by (simp add: sbind_def[of ?mail] s ret_def)
  finally show ?thesis by (simp add: s)
qed

lemma scan_filter:
  assumes "attrs w ''version'' = Some (PStr v)" and "attrs w ''os_type'' = Some (PStr t)"
    and "attrs w ''BASE_URL'' = Some b"
    and "requests_get env (trace w @ scan_started) b = Inr res"
    and "xmltodict_parse env (body_text res) = Inr results"
    and "blobs results = Inr (PList items)" and "list_all entry items"
  shows "scan env w =
    (Inr (filter (selected v t) items), w\<lparr>trace := trace w @ scan_started @ [HttpGet b]\<rparr>)"
proof -
  have "scan env w = list_urls items (w\<lparr>trace := trace w @ scan_started @ [HttpGet b]\<rparr>)"
    by (rule scan_eq[OF assms(3,4,5,6)]) simp
  also have "\<dots> = (Inr (filter (selected v t) items), w\<lparr>trace := trace w @ scan_started @ [HttpGet b]\<rparr>)"
    by (rule list_urls_filter[OF assms(7)]) (simp_all add: assms(1,2))
  finally show ?thesis .
qed

lemma scan_attrs: "attrs (snd (scan env w)) = attrs w"
  by (rule step_empty_attrs[OF preservesE[OF preserves_scan[of UNIV "{}" w env] step_refl]]) simp

lemma test_never_starts:
  assumes "\<And>tr d. \<exists>msg. webdriver_Edge env tr d = Inl msg"
  shows "fst (test env w) = Inr False"
proof (cases "attrs w ''DRIVER_NAME''")
  case None
  then show ?thesis
    by (simp add: test_def test_body_def sbind_def try_except_def getattr_def class_attrs_def
        enter_def emit_def print_and_log_eq ret_def)
next
  case (Some d)
  from assms[of "trace w @ test_started" d] obtain msg
    where "webdriver_Edge env (trace w @ test_started) d = Inl msg" by blast
  then show ?thesis by (simp add: test_eq[OF Some])
qed

lemma attempt_never_starts:
  assumes "\<And>w. fst (test env w) = Inr False"
  shows "fst (attempt env (PDict kvs) w) = Inr False"
proof (cases rule: attempt_dict_cases[of env kvs w])
  case (download_failed w2)
  then show ?thesis by simp
next
  case (test_failed w2 w3)
  then show ?thesis by simp
next
  case (ok w2 w3)
  with assms[of w2] show ?thesis by simp
qed

lemma try_loop_never_starts:
  assumes "\<And>w. fst (test env w) = Inr False" and "list_all is_dict cs"
  shows "fst (try_loop env cs w) = Inr False"
  using assms(2)
proof (induction cs arbitrary: w)
  case Nil
  show ?case by simp
next
  case (Cons c cs)
  then obtain kvs where c: "c = PDict kvs" and cs: "list_all is_dict cs"
    by (cases c) auto
  obtain r w1 where a: "attempt env (PDict kvs) w = (r, w1)" by (cases "attempt env (PDict kvs) w")
  with attempt_never_starts[OF assms(1), of kvs w] have "r = Inr False" by simp
  with a c Cons.IH[OF cs, of w1] show ?case by simp
qed

subsection \<open>The sample environments at work\<close>

lemma last_extracted_append:
  "last_extracted (xs @ ys) =
     (case last_extracted ys of Some c \<Rightarrow> Some c | None \<Rightarrow> last_extracted xs)"
  by (simp add: last_extracted_def Let_def)

lemma last_extracted_Nil: "last_extracted [] = None"
  by (simp add: last_extracted_def)

lemma last_extracted_Cons:
  "last_extracted (ev # evs) =
     (case last_extracted evs of Some c \<Rightarrow> Some c
      | None \<Rightarrow> (case extracted ev of [] \<Rightarrow> None | c # cs \<Rightarrow> Some (last (c # cs))))"
  by (cases ev) (simp_all add: last_extracted_def Let_def)

lemmas last_extracted_simps = last_extracted_append last_extracted_Nil last_extracted_Cons

lemma attempt_fst:
  "fst (attempt env (PDict kvs) w) = Inr True \<longleftrightarrow>
     fst (download env (begin_attempt (PDict kvs) w)) = Inr True \<and>
     fst (test env (snd (download env (begin_attempt (PDict kvs) w)))) = Inr True"
proof (cases rule: attempt_dict_cases[of env kvs w])
  case (download_failed w2)
  then show ?thesis by simp
next
  case (test_failed w2 w3)
  then show ?thesis by simp
next
  case (ok w2 w3)
  then show ?thesis by simp
qed

lemma test_alt:
  assumes "attrs w ''DRIVER_NAME'' = Some d"
  shows "fst (test env_alt w) = Inr (last_extracted (trace w) = Some ''103.0.1264.49'')"
proof -
  have "webdriver_Edge env_alt (trace w @ test_started) d =
      (if last_extracted (trace w) = Some ''103.0.1264.49'' then Inr () else Inl ''version mismatch'')"
    by (simp add: env_alt_def env_present_def last_extracted_simps test_started_def logs_def)
  moreover have "driver_close env_alt tr = Inr ()" for tr
    by (simp add: env_alt_def env_present_def)
  ultimately show ?thesis by (simp add: test_eq[OF assms])
qed

lemma download_alt_other:
  assumes "attrs w ''url'' = Some (PStr u)" and "u \<noteq> ''https://index''"
    and "u \<noteq> ''https://store/103.0.1264.49/edgedriver_win64.zip''"
    and "u \<noteq> matched_url ''103.0.1264.37'' ''win64''"
  shows "fst (download env_alt w) = Inr True \<and>
     last_extracted (trace (snd (download env_alt w))) = Some ''other''"
proof -
  have "requests_get env_alt tr (PStr u) = Inr (archive ''other'')" for tr
    using assms(2,3,4) by (simp add: env_alt_def env_present_def)
  moreover have "extractall env_alt tr c = Inr ()" for tr c
    by (simp add: env_alt_def env_present_def)
  ultimately show ?thesis
    by (simp add: download_eq[OF assms(1)] archive_def last_extracted_simps logs_def)
qed

lemma download_alt_49:
  assumes "attrs w ''url'' = Some (PStr ''https://store/103.0.1264.49/edgedriver_win64.zip'')"
  shows "fst (download env_alt w) = Inr True \<and>
     last_extracted (trace (snd (download env_alt w))) = Some ''103.0.1264.49''"
proof -
  have "requests_get env_alt tr (PStr ''https://store/103.0.1264.49/edgedriver_win64.zip'') =
      Inr (archive ''103.0.1264.49'')" for tr
    by (simp add: env_alt_def env_present_def)
  moreover have "extractall env_alt tr c = Inr ()" for tr c
    by (simp add: env_alt_def env_present_def)
  ultimately show ?thesis
    by (simp add: download_eq[OF assms(1)] archive_def last_extracted_simps logs_def)
qed

lemma matched_url_neq:
  "''https://store/103.0.1264.44/edgedriver_win64.zip'' \<noteq> matched_url ''103.0.1264.37'' ''win64''"
  "''https://store/103.0.1264.62/edgedriver_win64.zip'' \<noteq> matched_url ''103.0.1264.37'' ''win64''"
  by (simp_all add: matched_url_def)

lemma attempt_alt_44:
  assumes "attrs w ''DRIVER_NAME'' = Some d"
  shows "fst (attempt env_alt (entry_of ''103.0.1264.44/edgedriver_win64.zip'') w) = Inr False"
proof -
  let ?c = "entry_of ''103.0.1264.44/edgedriver_win64.zip''"
  obtain kvs where c: "?c = PDict kvs" by (simp add: entry_of_def)
  let ?w1 = "begin_attempt ?c w"
  have u: "attrs ?w1 ''url'' = Some (PStr ''https://store/103.0.1264.44/edgedriver_win64.zip'')"
    by (simp add: begin_attempt_def url_of_entry_of)
  from download_alt_other[OF u] matched_url_neq
  have d1: "fst (download env_alt ?w1) = Inr True"
    and l: "last_extracted (trace (snd (download env_alt ?w1))) = Some ''other''" by simp_all
  have "attrs (snd (download env_alt ?w1)) ''DRIVER_NAME'' = Some d"
    using assms by (simp add: download_attrs begin_attempt_def)
  from test_alt[OF this] l have "fst (test env_alt (snd (download env_alt ?w1))) = Inr False"
    by simp
  with attempt_fst[of env_alt kvs w] attempt_dict_returns[of env_alt kvs w] c show ?thesis
    by (cases "fst (attempt env_alt (PDict kvs) w)") auto
qed

lemma attempt_alt_49:
  assumes "attrs w ''DRIVER_NAME'' = Some d"
  shows "fst (attempt env_alt (entry_of ''103.0.1264.49/edgedriver_win64.zip'') w) = Inr True"
proof -
  let ?c = "entry_of ''103.0.1264.49/edgedriver_win64.zip''"
  obtain kvs where c: "?c = PDict kvs" by (simp add: entry_of_def)
  let ?w1 = "begin_attempt ?c w"
  have u: "attrs ?w1 ''url'' = Some (PStr ''https://store/103.0.1264.49/edgedriver_win64.zip'')"
    by (simp add: begin_attempt_def url_of_entry_of)
  from download_alt_49[OF u]
  have d1: "fst (download env_alt ?w1) = Inr True"
    and l: "last_extracted (trace (snd (download env_alt ?w1))) = Some ''103.0.1264.49''"
    by simp_all
  have "attrs (snd (download env_alt ?w1)) ''DRIVER_NAME'' = Some d"
    using assms by (simp add: download_attrs begin_attempt_def)
  from test_alt[OF this] l have "fst (test env_alt (snd (download env_alt ?w1))) = Inr True"
    by simp
  with attempt_fst[of env_alt kvs w] d1 c show ?thesis by simp
qed

lemma scan_alt:
  "scan env_alt (emit (Enter ''try_another_version'') (snd (constructed env_alt))) =
     (Inr [entry_of ''103.0.1264.44/edgedriver_win64.zip'',
           entry_of ''103.0.1264.49/edgedriver_win64.zip'',
           entry_of ''103.0.1264.62/edgedriver_win64.zip''],
      (emit (Enter ''try_another_version'') (snd (constructed env_alt)))
        \<lparr>trace := trace (emit (Enter ''try_another_version'') (snd (constructed env_alt))) @
           scan_started @ [HttpGet (PStr ''https://index'')]\<rparr>)"
proof -
  let ?w = "emit (Enter ''try_another_version'') (snd (constructed env_alt))"
  have a: "attrs ?w = attrs (snd (constructed env_alt))" by (simp add: emit_def)
  have "scan env_alt ?w =
    (Inr (filter (selected ''103.0.1264.37'' ''win64'') listing0),
     ?w\<lparr>trace := trace ?w @ scan_started @ [HttpGet (PStr ''https://index'')]\<rparr>)"
    by (rule scan_filter[OF _ _ _ env_alt_index blobs_index0 listing0_entries])
      (simp_all only: a attrs_constructed_alt)
  then show ?thesis by (simp only: selected_listing0)
qed

subsection \<open>Claim C10\<close>

lemma try_another_version_attrs:
  assumes "scan env (emit (Enter ''try_another_version'') w) = (Inr cs, w1)"
    and "fst (try_another_version env w) = Inr False"
  shows "(cs \<noteq> [] \<longrightarrow> attrs (snd (try_another_version env w)) = (attrs w)(''url'' \<mapsto> url_of (last cs))) \<and>
    (cs = [] \<longrightarrow> attrs (snd (try_another_version env w)) = attrs w)"
proof -
  from scan_attrs[of env "emit (Enter ''try_another_version'') w"] assms(1)
  have a: "attrs w1 = attrs w" by (simp add: emit_def)
  from try_another_version_scanned[OF assms(1)] assms(2)
  have "try_loop env cs w1 = (Inr False, snd (try_another_version env w))"
    by (cases "try_loop env cs w1") simp
  from try_loop_failed_trace[OF scan_dicts[OF assms(1)] this] a show ?thesis by auto
qed

text \<open>
  C10. After a call of \<^verbatim>\<open>try_another_version\<close> that scanned the index, attempted at least
  one candidate and returned false, \<^verbatim>\<open>self.url\<close> is the \<^verbatim>\<open>Url\<close> of the last candidate of
  the filtered list, and every other attribute is as before: the URL built by the
  constructor is not restored.
\<close>

theorem try_another_version_leaves_last_url:
  assumes "scan env (emit (Enter ''try_another_version'') w) = (Inr cs, w1)" and "cs \<noteq> []"
    and "fst (try_another_version env w) = Inr False"
  shows "attrs (snd (try_another_version env w)) = (attrs w)(''url'' \<mapsto> url_of (last cs))"
  using try_another_version_attrs[OF assms(1,3)] assms(2) by simp

lemma test_none: "fst (test env_none w) = Inr False"
  by (rule test_never_starts) (simp add: env_none_def)

lemma env_none_index:
  "requests_get env_none tr (PStr ''https://index'') =
     Inr \<lparr>status_code = 200, content = [], body_text = ''<EnumerationResults/>''\<rparr>"
  "xmltodict_parse env_none s = Inr index0"
  by (simp_all add: env_none_def env_alt_def env_present_def)

lemma attrs_constructed_none:
  "attrs (snd (constructed env_none)) ''version'' = Some (PStr ''103.0.1264.37'')"
  "attrs (snd (constructed env_none)) ''os_type'' = Some (PStr ''win64'')"
  "attrs (snd (constructed env_none)) ''BASE_URL'' = Some (PStr ''https://index'')"
  "attrs (snd (constructed env_none)) ''DRIVER_NAME'' = Some (PStr ''msedgedriver.exe'')"
  "attrs (snd (constructed env_none)) ''url'' = Some (PStr (matched_url ''103.0.1264.37'' ''win64''))"
  by (simp_all add: constructed_none init_attrs_version init_attrs_os_type init_attrs_BASE_URL
      init_attrs_DRIVER_NAME init_attrs_url prop_of_kvs0)

lemma scan_none:
  assumes "attrs w = attrs (snd (constructed env_none))"
  shows "scan env_none w =
     (Inr [entry_of ''103.0.1264.44/edgedriver_win64.zip'',
           entry_of ''103.0.1264.49/edgedriver_win64.zip'',
           entry_of ''103.0.1264.62/edgedriver_win64.zip''],
      w\<lparr>trace := trace w @ scan_started @ [HttpGet (PStr ''https://index'')]\<rparr>)"
proof -
  have "scan env_none w =
    (Inr (filter (selected ''103.0.1264.37'' ''win64'') listing0),
     w\<lparr>trace := trace w @ scan_started @ [HttpGet (PStr ''https://index'')]\<rparr>)"
    by (rule scan_filter[OF _ _ _ env_none_index blobs_index0 listing0_entries])
      (simp_all only: assms attrs_constructed_none)
  then show ?thesis by (simp only: selected_listing0)
qed

lemma try_another_version_none:
  assumes "attrs w = attrs (snd (constructed env_none))"
  shows "fst (try_another_version env_none w) = Inr False"
proof -
  let ?w = "emit (Enter ''try_another_version'') w"
  have "attrs ?w = attrs (snd (constructed env_none))" using assms by (simp add: emit_def)
  from scan_none[OF this] obtain cs w1 where s: "scan env_none ?w = (Inr cs, w1)" by blast
  from try_loop_never_starts[OF test_none scan_dicts[OF s], of w1]
    try_another_version_scanned[OF s]
  show ?thesis by simp
qed

theorem try_another_version_leaves_last_url_witness:
  "fst (scan env_none (emit (Enter ''try_another_version'') (snd (constructed env_none)))) =
     Inr [entry_of ''103.0.1264.44/edgedriver_win64.zip'',
          entry_of ''103.0.1264.49/edgedriver_win64.zip'',
          entry_of ''103.0.1264.62/edgedriver_win64.zip''] \<and>
   fst (try_another_version env_none (snd (constructed env_none))) = Inr False \<and>
   attrs (snd (constructed env_none)) ''url'' = Some (PStr (matched_url ''103.0.1264.37'' ''win64'')) \<and>
   attrs (snd (try_another_version env_none (snd (constructed env_none)))) ''url'' =
     Some (PStr ''https://store/103.0.1264.62/edgedriver_win64.zip'') \<and>
   ''https://store/103.0.1264.62/edgedriver_win64.zip'' \<noteq> matched_url ''103.0.1264.37'' ''win64''"
proof -
  let ?start = "snd (constructed env_none)"
  let ?w = "emit (Enter ''try_another_version'') ?start"
  let ?cs = "[entry_of ''103.0.1264.44/edgedriver_win64.zip'',
           entry_of ''103.0.1264.49/edgedriver_win64.zip'',
           entry_of ''103.0.1264.62/edgedriver_win64.zip'']"
  have "attrs ?w = attrs ?start" by (simp add: emit_def)
  from scan_none[OF this] obtain w1 where s: "scan env_none ?w = (Inr ?cs, w1)" by blast
  have f: "fst (try_another_version env_none ?start) = Inr False"
    by (rule try_another_version_none) simp
  from try_another_version_leaves_last_url[OF s _ f]
  have "attrs (snd (try_another_version env_none ?start)) =
      (attrs ?start)(''url'' \<mapsto> url_of (last ?cs))" by simp
  then have "attrs (snd (try_another_version env_none ?start)) ''url'' =
      Some (PStr ''https://store/103.0.1264.62/edgedriver_win64.zip'')"
    by (simp add: url_of_entry_of)
  with s f show ?thesis by (simp add: attrs_constructed_none matched_url_neq)
qed

subsection \<open>The traces of the stages\<close>

lemma step_constructed:
  "init_kinds \<subseteq> S \<Longrightarrow> step init_names S fresh (snd (constructed env))"
  unfolding constructed_def
  by (rule preservesE[OF preserves_init step_refl]) (simp_all add: fresh_unset)

lemma step_stage1:
  "stage1_kinds \<subseteq> S \<Longrightarrow> step init_names S fresh (snd (stage1 env))"
  unfolding stage1_def
  by (rule preservesE[OF preserves_test step_constructed])
    (auto simp: stage1_kinds_def init_kinds_def)

lemma step_matched:
  "init_kinds \<union> alt_kinds \<subseteq> S \<Longrightarrow> step init_names S fresh (snd (matched env))"
  unfolding matched_def
  by (rule preservesE[OF preserves_download step_stage1])
    (auto simp: stage1_kinds_def init_kinds_def alt_kinds_def)

lemma step_stage2:
  "init_kinds \<union> alt_kinds \<subseteq> S \<Longrightarrow> step init_names S fresh (snd (stage2 env))"
  unfolding stage2_def
  by (rule preservesE[OF preserves_test step_matched]) (auto simp: alt_kinds_def)

lemma step_stage3:
  "init_kinds \<union> alt_kinds \<subseteq> S \<Longrightarrow> step init_names S fresh (snd (stage3 env))"
  unfolding stage3_def
  by (rule preservesE[OF preserves_try_another_version step_stage2])
    (auto simp: not_init_names fresh_unset)

lemma no_copy_kind: "KEnter ''copy_to_path'' \<notin> init_kinds \<union> alt_kinds"
  by (simp add: init_kinds_def alt_kinds_def)

lemma stage1_kinds_simps:
  "KHttp \<notin> stage1_kinds" "KEnter ''copy_to_path'' \<notin> stage1_kinds" "KZip \<notin> stage1_kinds"
  by (simp_all add: stage1_kinds_def init_kinds_def)

lemma invoked_logs: "invoked name (logs m a l) = 0"
  by (simp add: invoked_def logs_def)

lemma http_gets_logs: "http_gets (logs m a l) = []"
  by (simp add: http_gets_def logs_def)

lemma run_stage1_quiet:
  assumes "fst (constructed env) = Inr ()" and "fst (stage1 env) = Inr True"
  shows "fst (run env) = Inr () \<and> http_gets (trace (snd (run env))) = [] \<and>
     invoked ''copy_to_path'' (trace (snd (run env))) = 0"
proof -
  from kinds_of_trace[OF step_stage1[OF subset_refl]]
  have k: "kind_of ` set (trace (snd (stage1 env))) \<subseteq> stage1_kinds" .
  from http_gets_kinds[OF k] invoked_kinds[OF k] stage1_kinds_simps
  have "http_gets (trace (snd (stage1 env))) = []"
    and "invoked ''copy_to_path'' (trace (snd (stage1 env))) = 0" by simp_all
  then show ?thesis
    by (simp add: run_stage1[OF assms] http_gets_append invoked_append invoked_logs http_gets_logs)
qed

lemma invoked_emit: "invoked name (trace (emit (Enter name) w)) = invoked name (trace w) + 1"
  by (simp add: emit_def invoked_def)

lemma run_stage2_copies:
  assumes "fst (constructed env) = Inr ()" and "fst (stage1 env) = Inr False"
    and "fst (stage2 env) = Inr True"
  shows "invoked ''copy_to_path'' (trace (snd (run env))) = 1 \<and>
     last (trace (snd (run env))) = Enter ''copy_to_path''"
proof -
  from kinds_of_trace[OF step_stage2[OF subset_refl]]
  have "kind_of ` set (trace (snd (stage2 env))) \<subseteq> init_kinds \<union> alt_kinds" .
  from invoked_kinds[OF this no_copy_kind]
  show ?thesis by (simp add: run_stage2[OF assms] invoked_emit) (simp add: emit_def)
qed

lemma run_stage3_copies:
  assumes "fst (constructed env) = Inr ()" and "fst (stage1 env) = Inr False"
    and "fst (stage2 env) = Inr False" and "fst (stage3 env) = Inr True"
  shows "invoked ''copy_to_path'' (trace (snd (run env))) = 1 \<and>
     last (trace (snd (run env))) = Enter ''copy_to_path''"
proof -
  from kinds_of_trace[OF step_stage3[OF subset_refl]]
  have "kind_of ` set (trace (snd (stage3 env))) \<subseteq> init_kinds \<union> alt_kinds" .
  from invoked_kinds[OF this no_copy_kind]
  show ?thesis by (simp add: run_stage3[OF assms] invoked_emit) (simp add: emit_def)
qed

lemma invoked_gave_up: "invoked ''copy_to_path'' gave_up = 0" "invoked ''send_mail'' gave_up = 1"
  by (simp_all add: gave_up_def invoked_def logs_def handler_logs_def)

lemma run_exhausted_no_copy:
  assumes "fst (constructed env) = Inr ()" and "fst (stage1 env) = Inr False"
    and "fst (stage2 env) = Inr False" and "fst (stage3 env) = Inr False"
  shows "invoked ''copy_to_path'' (trace (snd (run env))) = 0"
proof -
  from kinds_of_trace[OF step_stage3[OF subset_refl]]
  have "kind_of ` set (trace (snd (stage3 env))) \<subseteq> init_kinds \<union> alt_kinds" .
  from invoked_kinds[OF this no_copy_kind]
  show ?thesis by (simp add: run_exhausted[OF assms] invoked_append invoked_gave_up)
qed

lemma stage_returns:
  "\<exists>b. fst (stage1 env) = Inr b" "\<exists>b. fst (stage2 env) = Inr b" "\<exists>b. fst (stage3 env) = Inr b"
  using test_returns[of env "snd (constructed env)"] test_returns[of env "snd (matched env)"]
    try_another_version_returns[of env "snd (stage2 env)"]
  by (auto simp: stage1_def stage2_def stage3_def)

subsection \<open>The stages in the sample environments\<close>

lemma constructed_present:
  "constructed env_present =
     (Inr (), \<lparr>attrs = init_attrs ''103.0.1264.37'' ''win64'' kvs0,
        trace = init_trace ''103.0.1264.37'' ''win64''\<rparr>)"
  unfolding constructed_def
  by (rule init_ok) (simp_all add: env_present_def props0_def)

lemma stage1_present: "fst (stage1 env_present) = Inr True"
proof -
  have d: "attrs (snd (constructed env_present)) ''DRIVER_NAME'' = Some (PStr ''msedgedriver.exe'')"
    by (simp add: constructed_present init_attrs_DRIVER_NAME prop_of_kvs0)
  have "webdriver_Edge env_present tr x = Inr ()" and "driver_close env_present tr = Inr ()" for tr x
    by (simp_all add: env_present_def)
  then show ?thesis by (simp add: stage1_def test_eq[OF d])
qed

lemma kinds_init_trace: "KZip \<notin> kind_of ` set (init_trace v os_type)"
  by (simp add: init_trace_def init_tr1_def init_tr0_def banner_def logs_def)

lemma attrs_constructed_matched:
  "attrs (snd (constructed env_matched)) ''DRIVER_NAME'' = Some (PStr ''msedgedriver.exe'')"
  "attrs (snd (constructed env_matched)) ''url'' = Some (PStr (matched_url ''103.0.1264.37'' ''win64''))"
  by (simp_all add: constructed_matched_env init_attrs_DRIVER_NAME init_attrs_url prop_of_kvs0)

lemma test_matched:
  assumes "attrs w ''DRIVER_NAME'' = Some d"
  shows "fst (test env_matched w) = Inr (KZip \<in> set (map kind_of (trace w)))"
proof -
  have "webdriver_Edge env_matched (trace w @ test_started) d =
      (if KZip \<in> set (map kind_of (trace w)) then Inr () else Inl ''cannot start'')"
    by (simp add: env_matched_def env_present_def test_started_def logs_def)
  moreover have "driver_close env_matched tr = Inr ()" for tr
    by (simp add: env_matched_def env_present_def)
  ultimately show ?thesis by (simp add: test_eq[OF assms])
qed

lemma stage1_matched: "fst (stage1 env_matched) = Inr False"
  unfolding stage1_def
  by (simp add: test_matched[OF attrs_constructed_matched(1)])
    (simp add: constructed_matched_env kinds_init_trace)

lemma download_matched:
  assumes "attrs w ''url'' = Some u"
  shows "fst (download env_matched w) = Inr True \<and>
     KZip \<in> set (map kind_of (trace (snd (download env_matched w))))"
proof -
  have "requests_get env_matched tr u = Inr (archive ''driver'')"
    and "extractall env_matched tr c = Inr ()" for tr c
    by (simp_all add: env_matched_def env_present_def)
  then show ?thesis by (simp add: download_eq[OF assms] archive_def)
qed

lemma stage2_matched: "fst (stage2 env_matched) = Inr True"
proof -
  have u: "attrs (snd (stage1 env_matched)) ''url'' = Some (PStr (matched_url ''103.0.1264.37'' ''win64''))"
    by (simp add: stage1_def test_attrs attrs_constructed_matched)
  have d: "attrs (snd (matched env_matched)) ''DRIVER_NAME'' = Some (PStr ''msedgedriver.exe'')"
    by (simp add: matched_def download_attrs stage1_def test_attrs attrs_constructed_matched)
  from download_matched[OF u] have "KZip \<in> set (map kind_of (trace (snd (matched env_matched))))"
    by (simp add: matched_def)
  with test_matched[OF d] show ?thesis by (simp add: stage2_def)
qed

lemma stage_attrs:
  "attrs (snd (stage1 env)) = attrs (snd (constructed env))"
  "attrs (snd (matched env)) = attrs (snd (constructed env))"
  "attrs (snd (stage2 env)) = attrs (snd (constructed env))"
  by (simp_all add: stage1_def matched_def stage2_def test_attrs download_attrs)

lemma stages_none:
  "fst (constructed env_none) = Inr ()" "fst (stage1 env_none) = Inr False"
  "fst (stage2 env_none) = Inr False" "fst (stage3 env_none) = Inr False"
proof -
  show "fst (constructed env_none) = Inr ()" by (simp add: constructed_none)
  show "fst (stage1 env_none) = Inr False" by (simp add: stage1_def test_none)
  show "fst (stage2 env_none) = Inr False" by (simp add: stage2_def test_none)
  show "fst (stage3 env_none) = Inr False"
    unfolding stage3_def by (rule try_another_version_none) (simp add: stage_attrs)
qed

subsection \<open>Which methods an attempt enters\<close>

lemma entries_append: "entries (xs @ ys) = entries xs @ entries ys"
  by (simp add: entries_def)

lemma entries_kinds:
  assumes "kind_of ` set evs \<subseteq> S" and "\<And>name. KEnter name \<notin> S"
  shows "entries evs = []"
proof -
  have "\<not> is_Enter ev" if "ev \<in> set evs" for ev
    using assms that by (cases ev) auto
  then show ?thesis by (simp add: entries_def filter_empty_conv)
qed

lemma entries_logs: "entries (logs m a l) = []"
  by (simp add: entries_def logs_def)

lemma entries_Enter: "entries (Enter name # evs) = Enter name # entries evs"
  by (simp add: entries_def)

lemma test_entries:
  "\<exists>evs. trace (snd (test env w)) = trace w @ Enter ''test'' # evs \<and> entries evs = []"
proof -
  let ?w1 = "w\<lparr>trace := trace w @ [Enter ''test'']\<rparr>"
  let ?rest = "try_except (test_body env) (\<lambda>e.
       sbind (print_and_log ''Test failed, have to try another driver version...'' [] ''warning'') (\<lambda>_.
       sbind (print_and_log ''{}'' [StrOf e] ''debug'') (\<lambda>_.
       sbind (print_and_log ''{}'' [TracebackOf e] ''debug'') (\<lambda>_.
       ret False))))"
  have t: "test env w = ?rest ?w1" by (simp add: test_def sbind_enter)
  have "preserves (step {} {KLog, KDriver} ?w1) ?rest"
    unfolding test_body_def by (intro preserves_rules) auto
  from preservesE[OF this step_refl] obtain evs
    where "trace (snd (?rest ?w1)) = trace ?w1 @ evs" and "kind_of ` set evs \<subseteq> {KLog, KDriver}"
    unfolding step_def by blast
  moreover from this(2) have "entries evs = []" by (rule entries_kinds) simp
  ultimately show ?thesis using t by auto
qed

lemma download_entries:
  "\<exists>evs. trace (snd (download env w)) = trace w @ Enter ''download'' # evs \<and> entries evs = []"
proof -
  let ?w1 = "w\<lparr>trace := trace w @ [Enter ''download'']\<rparr>"
  let ?rest = "try_except (download_body env) (\<lambda>e.
       sbind (getattr ''url'') (\<lambda>url.
       sbind (print_and_log ''Download failed with with url: {}'' [Val url] ''error'') (\<lambda>_.
       sbind (print_and_log ''{}'' [StrOf e] ''debug'') (\<lambda>_.
       sbind (print_and_log ''{}'' [TracebackOf e] ''debug'') (\<lambda>_.
       ret False)))))"
  have t: "download env w = ?rest ?w1" by (simp add: download_def sbind_enter)
  have "preserves (step {} {KLog, KHttp, KZip} ?w1) ?rest"
    unfolding download_body_def by (intro preserves_rules) auto
  from preservesE[OF this step_refl] obtain evs
    where "trace (snd (?rest ?w1)) = trace ?w1 @ evs" and "kind_of ` set evs \<subseteq> {KLog, KHttp, KZip}"
    unfolding step_def by blast
  moreover from this(2) have "entries evs = []" by (rule entries_kinds) simp
  ultimately show ?thesis using t by auto
qed

lemma attempt_entries:
  assumes "attempt env (PDict kvs) w = (r, w')"
  shows "entries (added w w') =
    (if fst (download env (begin_attempt (PDict kvs) w)) = Inr True
     then [Enter ''download'', Enter ''test''] else [Enter ''download''])"
proof -
  let ?w1 = "begin_attempt (PDict kvs) w"
  have t1: "trace ?w1 = trace w @ logs ''{}'' [Val (PDict kvs)] ''debug''"
    by (simp add: begin_attempt_def)
  from download_entries[of env ?w1] obtain evs1
    where d1: "trace (snd (download env ?w1)) = trace ?w1 @ Enter ''download'' # evs1"
      and e1: "entries evs1 = []" by blast
  show ?thesis
  proof (cases rule: attempt_dict_cases[of env kvs w])
    case (download_failed w2)
    with assms have "w' = w2" by simp
    with download_failed(1) d1 t1 e1 show ?thesis
      by (simp add: added_def entries_append entries_logs entries_Enter)
  next
    case (test_failed w2 w3)
    with assms have w': "w' = w3" by simp
    from test_entries[of env w2] test_failed(2) obtain evs2
      where "trace w3 = trace w2 @ Enter ''test'' # evs2" and "entries evs2 = []" by auto
    with test_failed(1) w' d1 t1 e1 show ?thesis
      by (simp add: added_def entries_append entries_logs entries_Enter)
  next
    case (ok w2 w3)
    with assms have w': "w' = w3\<lparr>trace := trace w3 @ attempt_succeeded (PDict kvs)\<rparr>" by simp
    from test_entries[of env w2] ok(2) obtain evs2
      where "trace w3 = trace w2 @ Enter ''test'' # evs2" and "entries evs2 = []" by auto
    moreover have "entries (attempt_succeeded (PDict kvs)) = []"
      by (simp add: attempt_succeeded_def entries_append entries_logs)
    ultimately show ?thesis using ok(1) w' d1 t1 e1
      by (simp add: added_def entries_append entries_logs entries_Enter)
  qed
qed

subsection \<open>The entries of the loop\<close>

lemma try_loop_entries:
  assumes "list_all is_dict cs"
  shows "entries (added w (snd (try_loop env cs w))) = loop_entries env cs w"
  using assms
proof (induction cs arbitrary: w)
  case Nil
  show ?case by (simp add: added_def entries_def)
next
  case (Cons c cs)
  then obtain kvs where c: "c = PDict kvs" and cs: "list_all is_dict cs"
    by (cases c) auto
  from attempt_dict_returns[of env kvs w] obtain b w1
    where a: "attempt env (PDict kvs) w = (Inr b, w1)" by blast
  from attempt_trace[OF a] obtain evs1 where t1: "trace w1 = trace w @ evs1" by blast
  from attempt_entries[OF a] t1
  have e1: "entries evs1 =
    (if fst (download env (begin_attempt (PDict kvs) w)) = Inr True
     then [Enter ''download'', Enter ''test''] else [Enter ''download''])"
    by (simp add: added_append)
  show ?case
  proof (cases b)
    case True
    with a c t1 e1 show ?thesis by (simp add: added_append)
  next
    case False
    with a c have l: "try_loop env (c # cs) w = try_loop env cs w1" by simp
    obtain r w' where l1: "try_loop env cs w1 = (r, w')" by (cases "try_loop env cs w1")
    from try_loop_returns[OF cs, of env w1] l1 obtain b' where r: "r = Inr b'" by auto
    have "\<exists>evs2. trace w' = trace w1 @ evs2"
    proof (cases b')
      case True
      with l1 r have "try_loop env cs w1 = (Inr True, w')" by simp
      from try_loop_success_split[OF this] obtain pre c' post wk
        where s: "cs = pre @ c' # post" and p: "try_loop env pre w1 = (Inr False, wk)"
          and k: "attempt env c' wk = (Inr True, w')" by blast
      from cs s have "list_all is_dict pre" and "is_dict c'" by simp_all
      from try_loop_success_trace[OF this p k] show ?thesis by blast
    next
      case False
      with l1 r have "try_loop env cs w1 = (Inr False, w')" by simp
      from try_loop_failed_trace[OF cs this] show ?thesis by blast
    qed
    then obtain evs2 where t2: "trace w' = trace w1 @ evs2" by blast
    from Cons.IH[OF cs, of w1] l1 t2 have e2: "entries evs2 = loop_entries env cs w1"
      by (simp add: added_append)
    from t1 t2 have "added w w' = evs1 @ evs2" by (simp add: added_def)
    with l l1 e1 e2 a c False show ?thesis by (simp add: entries_append)
  qed
qed

lemma try_loop_no_download:
  assumes "\<And>c w. c \<in> set cs \<Longrightarrow> fst (download env (begin_attempt c w)) = Inr False"
    and "list_all is_dict cs"
  shows "fst (try_loop env cs w) = Inr False \<and>
     loop_entries env cs w = replicate (length cs) (Enter ''download'')"
  using assms
proof (induction cs arbitrary: w)
  case Nil
  show ?case by simp
next
  case (Cons c cs)
  then obtain kvs where c: "c = PDict kvs" and cs: "list_all is_dict cs"
    by (cases c) auto
  from Cons.prems(1)[of c w] have d: "fst (download env (begin_attempt c w)) = Inr False" by simp
  from attempt_dict_returns[of env kvs w] obtain b w1
    where a: "attempt env (PDict kvs) w = (Inr b, w1)" by blast
  with attempt_fst[of env kvs w] d c have b: "\<not> b" by auto
  have "fst (try_loop env cs w1) = Inr False \<and>
     loop_entries env cs w1 = replicate (length cs) (Enter ''download'')"
    by (rule Cons.IH[OF _ cs]) (simp add: Cons.prems(1))
  with a b c d show ?case by simp
qed

lemma constructed_gone:
  "constructed env_gone =
     (Inr (), \<lparr>attrs = init_attrs ''103.0.1264.37'' ''win64'' kvs0,
        trace = init_trace ''103.0.1264.37'' ''win64''\<rparr>)"
  unfolding constructed_def
  by (rule init_ok) (simp_all add: env_gone_def env_alt_def env_present_def props0_def)

lemma env_gone_index:
  "requests_get env_gone tr (PStr ''https://index'') =
     Inr \<lparr>status_code = 200, content = [], body_text = ''<EnumerationResults/>''\<rparr>"
  "xmltodict_parse env_gone s = Inr index0"
  by (simp_all add: env_gone_def env_alt_def env_present_def)

lemma attrs_constructed_gone:
  "attrs (snd (constructed env_gone)) ''version'' = Some (PStr ''103.0.1264.37'')"
  "attrs (snd (constructed env_gone)) ''os_type'' = Some (PStr ''win64'')"
  "attrs (snd (constructed env_gone)) ''BASE_URL'' = Some (PStr ''https://index'')"
  by (simp_all add: constructed_gone init_attrs_version init_attrs_os_type init_attrs_BASE_URL
      prop_of_kvs0)

lemma scan_gone:
  "scan env_gone (emit (Enter ''try_another_version'') (snd (constructed env_gone))) =
     (Inr [entry_of ''103.0.1264.44/edgedriver_win64.zip'',
           entry_of ''103.0.1264.49/edgedriver_win64.zip'',
           entry_of ''103.0.1264.62/edgedriver_win64.zip''],
      (emit (Enter ''try_another_version'') (snd (constructed env_gone)))
        \<lparr>trace := trace (emit (Enter ''try_another_version'') (snd (constructed env_gone))) @
           scan_started @ [HttpGet (PStr ''https://index'')]\<rparr>)"
proof -
  let ?w = "emit (Enter ''try_another_version'') (snd (constructed env_gone))"
  have a: "attrs ?w = attrs (snd (constructed env_gone))" by (simp add: emit_def)
  have "scan env_gone ?w =
    (Inr (filter (selected ''103.0.1264.37'' ''win64'') listing0),
     ?w\<lparr>trace := trace ?w @ scan_started @ [HttpGet (PStr ''https://index'')]\<rparr>)"
    by (rule scan_filter[OF _ _ _ env_gone_index blobs_index0 listing0_entries])
      (simp_all only: a attrs_constructed_gone)
  then show ?thesis by (simp only: selected_listing0)
qed

lemma download_gone:
  "fst (download env_gone (begin_attempt (entry_of name) w)) = Inr False"
proof -
  let ?u = "PStr (''https://store/'' @ name)"
  have u: "attrs (begin_attempt (entry_of name) w) ''url'' = Some ?u"
    by (simp add: begin_attempt_def url_of_entry_of)
  have "requests_get env_gone tr ?u = Inr not_found" for tr
    by (simp add: env_gone_def)
  then show ?thesis by (simp add: download_eq[OF u] not_found_def)
qed

subsection \<open>Claim C3\<close>

lemma invoked_entries: "invoked name (entries tr) = invoked name tr"
  by (induction tr) (auto simp: invoked_def entries_def)

lemma try_another_version_entries:
  assumes "scan env (emit (Enter ''try_another_version'') w) = (Inr cs, w1)"
  shows "entries (added w1 (snd (try_another_version env w))) = loop_entries env cs w1"
  using try_loop_entries[OF scan_dicts[OF assms], of w1 env]
  by (simp add: try_another_version_scanned[OF assms])

text \<open>
  C3 as worded fails: the claim has \<^verbatim>\<open>download\<close> and then \<^verbatim>\<open>test\<close> called for each candidate,
  but the loop runs the smoke test under \<^verbatim>\<open>if download_status:\<close>. When the index lists
  three candidates and the server has none of the archives, the method enters
  \<^verbatim>\<open>download\<close> three times and \<^verbatim>\<open>test\<close> not once, and returns false.
\<close>

theorem failed_download_skips_test:
  "fst (scan env_gone (emit (Enter ''try_another_version'') (snd (constructed env_gone)))) =
     Inr [entry_of ''103.0.1264.44/edgedriver_win64.zip'',
          entry_of ''103.0.1264.49/edgedriver_win64.zip'',
          entry_of ''103.0.1264.62/edgedriver_win64.zip''] \<and>
   fst (try_another_version env_gone (snd (constructed env_gone))) = Inr False \<and>
   entries (added (snd (scan env_gone (emit (Enter ''try_another_version'') (snd (constructed env_gone)))))
       (snd (try_another_version env_gone (snd (constructed env_gone))))) =
     [Enter ''download'', Enter ''download'', Enter ''download''] \<and>
   invoked ''test'' (added (snd (scan env_gone (emit (Enter ''try_another_version'') (snd (constructed env_gone)))))
       (snd (try_another_version env_gone (snd (constructed env_gone))))) = 0"
proof -
  let ?start = "snd (constructed env_gone)"
  let ?cs = "[entry_of ''103.0.1264.44/edgedriver_win64.zip'',
           entry_of ''103.0.1264.49/edgedriver_win64.zip'',
           entry_of ''103.0.1264.62/edgedriver_win64.zip'']"
  obtain w1 where s: "scan env_gone (emit (Enter ''try_another_version'') ?start) = (Inr ?cs, w1)"
    using scan_gone by blast
  have d: "fst (download env_gone (begin_attempt c w)) = Inr False" if "c \<in> set ?cs" for c w
    using that download_gone by auto
  have "list_all is_dict ?cs" by (simp add: entry_of_def)
  from try_loop_no_download[OF d this, of w1]
  have f: "fst (try_loop env_gone ?cs w1) = Inr False"
    and l: "loop_entries env_gone ?cs w1 = replicate (length ?cs) (Enter ''download'')"
    by simp_all
  from f have r: "fst (try_another_version env_gone ?start) = Inr False"
    by (simp add: try_another_version_scanned[OF s])
  from try_another_version_entries[OF s] l
  have e: "entries (added w1 (snd (try_another_version env_gone ?start))) =
      [Enter ''download'', Enter ''download'', Enter ''download'']"
    by (simp add: numeral_3_eq_3)
  have "invoked ''test'' (added w1 (snd (try_another_version env_gone ?start))) =
      invoked ''test'' (entries (added w1 (snd (try_another_version env_gone ?start))))"
    by (simp only: invoked_entries)
  also have "\<dots> = 0" by (simp only: e) (simp add: invoked_def)
  finally show ?thesis using s r e by simp
qed

text \<open>
  C3, amended. When fetching or parsing the index raises, \<^verbatim>\<open>try_another_version\<close> returns
  false. Otherwise it is the loop over the filtered candidates \<open>cs\<close>, which always returns
  a boolean, and the methods it enters are those of \<open>loop_entries\<close>: for each candidate
  attempted, \<^verbatim>\<open>download\<close>, and \<^verbatim>\<open>test\<close> after it only when that download returned true. If
  the candidates before \<open>c\<close> were attempted in order and failed, and the attempt of \<open>c\<close>
  succeeds, the method returns true in the state that attempt left, and the downloads
  made are those of the candidates up to \<open>c\<close>, in order: nothing after \<open>c\<close> is attempted.
  It returns true only in this way; when it returns false it has downloaded every
  candidate once, in order. An attempt succeeds exactly when the download returns true
  and the smoke test after it returns true; it enters \<^verbatim>\<open>download\<close> once, and \<^verbatim>\<open>test\<close> once
  after it exactly when the download returned true.
\<close>

theorem try_another_version_first_success:
  "(scan env (emit (Enter ''try_another_version'') w) = (Inl e, w1) \<longrightarrow>
      fst (try_another_version env w) = Inr False) \<and>
   (scan env (emit (Enter ''try_another_version'') w) = (Inr cs, w1) \<longrightarrow>
      try_another_version env w = try_loop env cs w1 \<and>
      (\<exists>b. fst (try_another_version env w) = Inr b) \<and>
      entries (added w1 (snd (try_another_version env w))) = loop_entries env cs w1 \<and>
      (\<forall>pre c post wk w'.
          cs = pre @ c # post \<and> try_loop env pre w1 = (Inr False, wk) \<and>
          attempt env c wk = (Inr True, w') \<longrightarrow>
          try_another_version env w = (Inr True, w') \<and>
          http_gets (added w1 w') = map (\<lambda>c. HttpGet (url_of c)) (pre @ [c])) \<and>
      (fst (try_another_version env w) = Inr True \<longrightarrow>
          (\<exists>pre c post wk. cs = pre @ c # post \<and> try_loop env pre w1 = (Inr False, wk) \<and>
             attempt env c wk = (Inr True, snd (try_another_version env w)))) \<and>
      (fst (try_another_version env w) = Inr False \<longrightarrow>
          http_gets (added w1 (snd (try_another_version env w))) =
            map (\<lambda>c. HttpGet (url_of c)) cs)) \<and>
   (fst (attempt env (PDict kvs) w) = Inr True \<longleftrightarrow>
      fst (download env (begin_attempt (PDict kvs) w)) = Inr True \<and>
      fst (test env (snd (download env (begin_attempt (PDict kvs) w)))) = Inr True) \<and>
   entries (added w (snd (attempt env (PDict kvs) w))) =
     (if fst (download env (begin_attempt (PDict kvs) w)) = Inr True
      then [Enter ''download'', Enter ''test''] else [Enter ''download''])"
proof (intro conjI impI allI)
  assume "scan env (emit (Enter ''try_another_version'') w) = (Inl e, w1)"
  then show "fst (try_another_version env w) = Inr False"
    by (simp add: try_another_version_scan_failed)
next
  assume s: "scan env (emit (Enter ''try_another_version'') w) = (Inr cs, w1)"
  show eq: "try_another_version env w = try_loop env cs w1"
    by (rule try_another_version_scanned[OF s])
  show "entries (added w1 (snd (try_another_version env w))) = loop_entries env cs w1"
    by (rule try_another_version_entries[OF s])
  from scan_dicts[OF s] have d: "list_all is_dict cs" .
  from try_loop_returns[OF d, of env w1] obtain b w' where l: "try_loop env cs w1 = (Inr b, w')"
    by blast
  with eq have "fst (try_another_version env w) = Inr b" by simp
  then show "\<exists>b. fst (try_another_version env w) = Inr b" by blast
  {
    assume "fst (try_another_version env w) = Inr True"
    with eq l have "try_loop env cs w1 = (Inr True, snd (try_another_version env w))" by simp
    from try_loop_success_split[OF this]
    show "\<exists>pre c post wk. cs = pre @ c # post \<and> try_loop env pre w1 = (Inr False, wk) \<and>
             attempt env c wk = (Inr True, snd (try_another_version env w))" .
  }
  {
    assume "fst (try_another_version env w) = Inr False"
    with eq l have "try_loop env cs w1 = (Inr False, snd (try_another_version env w))" by simp
    from try_loop_failed_trace[OF d this] obtain evs
      where "trace (snd (try_another_version env w)) = trace w1 @ evs"
        and "http_gets evs = map (\<lambda>c. HttpGet (url_of c)) cs" by blast
    then show "http_gets (added w1 (snd (try_another_version env w))) =
        map (\<lambda>c. HttpGet (url_of c)) cs"
      by (simp add: added_append)
  }
  {
    fix pre c post wk w'
    assume h: "cs = pre @ c # post \<and> try_loop env pre w1 = (Inr False, wk) \<and>
          attempt env c wk = (Inr True, w')"
    then have cs: "cs = pre @ c # post" and p: "try_loop env pre w1 = (Inr False, wk)"
      and a: "attempt env c wk = (Inr True, w')" by simp_all
    from try_loop_first_success[OF p a, of post] eq cs
    show "try_another_version env w = (Inr True, w')" by simp
    from d cs have "list_all is_dict pre" and "is_dict c" by simp_all
    from try_loop_success_trace[OF this p a] obtain evs where "trace w' = trace w1 @ evs"
      and "http_gets evs = map (\<lambda>c. HttpGet (url_of c)) (pre @ [c])" by blast
    then show "http_gets (added w1 w') = map (\<lambda>c. HttpGet (url_of c)) (pre @ [c])"
      by (simp add: added_append)
  }
next
  show "fst (attempt env (PDict kvs) w) = Inr True \<longleftrightarrow>
      fst (download env (begin_attempt (PDict kvs) w)) = Inr True \<and>
      fst (test env (snd (download env (begin_attempt (PDict kvs) w)))) = Inr True"
    by (rule attempt_fst)
next
  obtain r w' where a: "attempt env (PDict kvs) w = (r, w')" by (cases "attempt env (PDict kvs) w")
  from attempt_entries[OF a] a
  show "entries (added w (snd (attempt env (PDict kvs) w))) =
     (if fst (download env (begin_attempt (PDict kvs) w)) = Inr True
      then [Enter ''download'', Enter ''test''] else [Enter ''download''])"
    by simp
qed

theorem try_another_version_first_success_witness:
  "fst (scan env_alt (emit (Enter ''try_another_version'') (snd (constructed env_alt)))) =
     Inr [entry_of ''103.0.1264.44/edgedriver_win64.zip'',
          entry_of ''103.0.1264.49/edgedriver_win64.zip'',
          entry_of ''103.0.1264.62/edgedriver_win64.zip''] \<and>
   fst (try_another_version env_alt (snd (constructed env_alt))) = Inr True \<and>
   http_gets (added (snd (scan env_alt (emit (Enter ''try_another_version'') (snd (constructed env_alt)))))
       (snd (try_another_version env_alt (snd (constructed env_alt))))) =
     [HttpGet (PStr ''https://store/103.0.1264.44/edgedriver_win64.zip''),
      HttpGet (PStr ''https://store/103.0.1264.49/edgedriver_win64.zip'')] \<and>
   entries (added (snd (scan env_alt (emit (Enter ''try_another_version'') (snd (constructed env_alt)))))
       (snd (try_another_version env_alt (snd (constructed env_alt))))) =
     [Enter ''download'', Enter ''test'', Enter ''download'', Enter ''test'']"
proof -
  let ?start = "snd (constructed env_alt)"
  let ?e44 = "entry_of ''103.0.1264.44/edgedriver_win64.zip''"
  let ?e49 = "entry_of ''103.0.1264.49/edgedriver_win64.zip''"
  let ?e62 = "entry_of ''103.0.1264.62/edgedriver_win64.zip''"
  obtain w1 where s: "scan env_alt (emit (Enter ''try_another_version'') ?start) = (Inr [?e44, ?e49, ?e62], w1)"
    using scan_alt by blast
  have a1: "attrs w1 ''DRIVER_NAME'' = Some (PStr ''msedgedriver.exe'')"
    using scan_attrs[of env_alt "emit (Enter ''try_another_version'') ?start"] s
    by (simp add: emit_def attrs_constructed_alt)
  obtain wk where k: "attempt env_alt ?e44 w1 = (Inr False, wk)"
    using attempt_alt_44[OF a1] by (cases "attempt env_alt ?e44 w1") simp
  then have p: "try_loop env_alt [?e44] w1 = (Inr False, wk)" by simp
  have "is_dict ?e44" by (simp add: entry_of_def)
  from attempt_trace_dict[OF this k] a1 have ak: "attrs wk ''DRIVER_NAME'' = Some (PStr ''msedgedriver.exe'')"
    by simp
  obtain w' where a: "attempt env_alt ?e49 wk = (Inr True, w')"
    using attempt_alt_49[OF ak] by (cases "attempt env_alt ?e49 wk") simp
  have d44: "fst (download env_alt (begin_attempt ?e44 w1)) = Inr True"
    using download_alt_other[of "begin_attempt ?e44 w1" "''https://store/103.0.1264.44/edgedriver_win64.zip''"]
      matched_url_neq
    by (simp add: begin_attempt_def url_of_entry_of)
  have d49: "fst (download env_alt (begin_attempt ?e49 wk)) = Inr True"
    using download_alt_49[of "begin_attempt ?e49 wk"]
    by (simp add: begin_attempt_def url_of_entry_of)
  from k a d44 d49
  have le: "loop_entries env_alt [?e44, ?e49, ?e62] w1 =
      [Enter ''download'', Enter ''test'', Enter ''download'', Enter ''test'']"
    by simp
  note t = try_another_version_first_success[of env_alt ?start undefined w1 "[?e44, ?e49, ?e62]" "[]"]
  from t s
  have "\<forall>pre c post wk w'.
          [?e44, ?e49, ?e62] = pre @ c # post \<and> try_loop env_alt pre w1 = (Inr False, wk) \<and>
          attempt env_alt c wk = (Inr True, w') \<longrightarrow>
          try_another_version env_alt ?start = (Inr True, w') \<and>
          http_gets (added w1 w') = map (\<lambda>c. HttpGet (url_of c)) (pre @ [c])"
    by blast
  from this[rule_format, of "[?e44]" ?e49 "[?e62]" wk w'] p a
  have r: "try_another_version env_alt ?start = (Inr True, w')"
    and g: "http_gets (added w1 w') = map (\<lambda>c. HttpGet (url_of c)) [?e44, ?e49]" by simp_all
  from t s have "entries (added w1 (snd (try_another_version env_alt ?start))) =
      loop_entries env_alt [?e44, ?e49, ?e62] w1"
    by blast
  with le r have "entries (added w1 w') =
      [Enter ''download'', Enter ''test'', Enter ''download'', Enter ''test'']"
    by simp
  with s r g show ?thesis by (simp add: url_of_entry_of)
qed

subsection \<open>The ladder in \<open>env_alt\<close>\<close>

lemma last_extracted_kinds:
  assumes "kind_of ` set tr \<subseteq> S" and "KZip \<notin> S"
  shows "last_extracted tr = None"
proof -
  have "extracted ev = []" if "ev \<in> set tr" for ev
    using assms that by (cases ev) auto
  then have "concat (map extracted tr) = []" by simp
  then show ?thesis by (simp add: last_extracted_def)
qed

lemma last_extracted_test: "last_extracted (trace (snd (test env w))) = last_extracted (trace w)"
proof -
  have "step {} {KEnter ''test'', KLog, KDriver} w (snd (test env w))"
    by (rule preservesE[OF preserves_test step_refl]) simp
  then obtain evs where t: "trace (snd (test env w)) = trace w @ evs"
    and "kind_of ` set evs \<subseteq> {KEnter ''test'', KLog, KDriver}"
    unfolding step_def by blast
  from this(2) have "last_extracted evs = None" by (rule last_extracted_kinds) simp
  with t show ?thesis by (simp add: last_extracted_append)
qed

lemma download_alt_matched:
  assumes "attrs w ''url'' = Some (PStr (matched_url ''103.0.1264.37'' ''win64''))"
  shows "fst (download env_alt w) = Inr False \<and>
     last_extracted (trace (snd (download env_alt w))) = last_extracted (trace w)"
proof -
  have "matched_url ''103.0.1264.37'' ''win64'' \<noteq> ''https://index''"
    and "matched_url ''103.0.1264.37'' ''win64'' \<noteq> ''https://store/103.0.1264.49/edgedriver_win64.zip''"
    by (simp_all add: matched_url_def)
  then have "requests_get env_alt tr (PStr (matched_url ''103.0.1264.37'' ''win64'')) = Inr not_found" for tr
    by (simp add: env_alt_def env_present_def)
  then show ?thesis
    by (simp add: download_eq[OF assms] not_found_def last_extracted_simps logs_def
        download_started_def)
qed

lemma scan_alt_at:
  assumes "attrs w = attrs (snd (constructed env_alt))"
  shows "scan env_alt w =
     (Inr [entry_of ''103.0.1264.44/edgedriver_win64.zip'',
           entry_of ''103.0.1264.49/edgedriver_win64.zip'',
           entry_of ''103.0.1264.62/edgedriver_win64.zip''],
      w\<lparr>trace := trace w @ scan_started @ [HttpGet (PStr ''https://index'')]\<rparr>)"
proof -
  have "scan env_alt w =
    (Inr (filter (selected ''103.0.1264.37'' ''win64'') listing0),
     w\<lparr>trace := trace w @ scan_started @ [HttpGet (PStr ''https://index'')]\<rparr>)"
    by (rule scan_filter[OF _ _ _ env_alt_index blobs_index0 listing0_entries])
      (simp_all only: assms attrs_constructed_alt)
  then show ?thesis by (simp only: selected_listing0)
qed

lemma try_another_version_alt:
  assumes "attrs w = attrs (snd (constructed env_alt))"
  shows "fst (try_another_version env_alt w) = Inr True"
proof -
  let ?w = "emit (Enter ''try_another_version'') w"
  let ?e44 = "entry_of ''103.0.1264.44/edgedriver_win64.zip''"
  let ?e49 = "entry_of ''103.0.1264.49/edgedriver_win64.zip''"
  let ?e62 = "entry_of ''103.0.1264.62/edgedriver_win64.zip''"
  have a: "attrs ?w = attrs (snd (constructed env_alt))" using assms by (simp add: emit_def)
  from scan_alt_at[OF a] obtain w1 where s: "scan env_alt ?w = (Inr [?e44, ?e49, ?e62], w1)"
    by blast
  have a1: "attrs w1 ''DRIVER_NAME'' = Some (PStr ''msedgedriver.exe'')"
    using scan_attrs[of env_alt ?w] s a by (simp add: attrs_constructed_alt)
  obtain wk where k: "attempt env_alt ?e44 w1 = (Inr False, wk)"
    using attempt_alt_44[OF a1] by (cases "attempt env_alt ?e44 w1") simp
  then have p: "try_loop env_alt [?e44] w1 = (Inr False, wk)" by simp
  have "is_dict ?e44" by (simp add: entry_of_def)
  from attempt_trace_dict[OF this k] a1 have ak: "attrs wk ''DRIVER_NAME'' = Some (PStr ''msedgedriver.exe'')"
    by simp
  obtain w' where t: "attempt env_alt ?e49 wk = (Inr True, w')"
    using attempt_alt_49[OF ak] by (cases "attempt env_alt ?e49 wk") simp
  from try_loop_first_success[OF p t, of "[?e62]"] try_another_version_scanned[OF s]
  show ?thesis by simp
qed

lemma stages_alt:
  "fst (constructed env_alt) = Inr ()" "fst (stage1 env_alt) = Inr False"
  "fst (stage2 env_alt) = Inr False" "fst (stage3 env_alt) = Inr True"
proof -
  show "fst (constructed env_alt) = Inr ()" by (simp add: constructed_alt)
  have n: "last_extracted (trace (snd (constructed env_alt))) = None"
    by (rule last_extracted_kinds[OF _ kinds_init_trace[of "''103.0.1264.37''" "''win64''"]])
      (simp add: constructed_alt)
  have d: "attrs (snd (constructed env_alt)) ''DRIVER_NAME'' = Some (PStr ''msedgedriver.exe'')"
    by (rule attrs_constructed_alt)
  from test_alt[OF d] n show "fst (stage1 env_alt) = Inr False" by (simp add: stage1_def)
  have u: "attrs (snd (stage1 env_alt)) ''url'' = Some (PStr (matched_url ''103.0.1264.37'' ''win64''))"
    by (simp add: stage_attrs constructed_alt init_attrs_url)
  from download_alt_matched[OF u] n
  have "last_extracted (trace (snd (matched env_alt))) = None"
    by (simp add: matched_def stage1_def last_extracted_test)
  moreover have "attrs (snd (matched env_alt)) ''DRIVER_NAME'' = Some (PStr ''msedgedriver.exe'')"
    by (simp add: stage_attrs d)
  ultimately show "fst (stage2 env_alt) = Inr False"
    using test_alt[of "snd (matched env_alt)"] by (simp add: stage2_def)
  show "fst (stage3 env_alt) = Inr True"
    unfolding stage3_def by (rule try_another_version_alt) (simp add: stage_attrs)
qed

subsection \<open>Claim C1\<close>

text \<open>
  C1 fails as stated: in \<open>env_present\<close> the smoke test on the driver already there
  succeeds, and the run ends normally without ever calling \<^verbatim>\<open>copy_to_path\<close>.
\<close>

theorem stage1_success_without_distribute:
  "fst (constructed env_present) = Inr () \<and> fst (stage1 env_present) = Inr True \<and>
   fst (run env_present) = Inr () \<and>
   invoked ''copy_to_path'' (trace (snd (run env_present))) = 0"
proof -
  have c: "fst (constructed env_present) = Inr ()" by (simp add: constructed_present)
  from run_stage1_quiet[OF c stage1_present] c stage1_present show ?thesis by simp
qed

text \<open>
  C1, amended. On a constructed object: when the smoke test on the driver already there
  succeeds, the run makes no HTTP request and does not call \<^verbatim>\<open>copy_to_path\<close>; it ends
  normally. When that test fails and the test after the matched download succeeds, or
  both fail and \<^verbatim>\<open>try_another_version\<close> returns true, \<^verbatim>\<open>copy_to_path\<close> is called exactly
  once, and that call is the last thing the run does.
\<close>

theorem distribute_only_after_download:
  assumes "fst (constructed env) = Inr ()"
  shows "(fst (stage1 env) = Inr True \<longrightarrow>
       fst (run env) = Inr () \<and> http_gets (trace (snd (run env))) = [] \<and>
       invoked ''copy_to_path'' (trace (snd (run env))) = 0) \<and>
    (fst (stage1 env) = Inr False \<and> fst (stage2 env) = Inr True \<longrightarrow>
       invoked ''copy_to_path'' (trace (snd (run env))) = 1 \<and>
       last (trace (snd (run env))) = Enter ''copy_to_path'') \<and>
    (fst (stage1 env) = Inr False \<and> fst (stage2 env) = Inr False \<and> fst (stage3 env) = Inr True \<longrightarrow>
       invoked ''copy_to_path'' (trace (snd (run env))) = 1 \<and>
       last (trace (snd (run env))) = Enter ''copy_to_path'')"
  using run_stage1_quiet[OF assms] run_stage2_copies[OF assms] run_stage3_copies[OF assms]
  by blast

theorem distribute_only_after_download_witness:
  "fst (constructed env_present) = Inr () \<and> fst (stage1 env_present) = Inr True \<and>
   fst (run env_present) = Inr () \<and> http_gets (trace (snd (run env_present))) = [] \<and>
   fst (constructed env_matched) = Inr () \<and> fst (stage1 env_matched) = Inr False \<and>
   fst (stage2 env_matched) = Inr True \<and>
   invoked ''copy_to_path'' (trace (snd (run env_matched))) = 1 \<and>
   last (trace (snd (run env_matched))) = Enter ''copy_to_path'' \<and>
   fst (constructed env_alt) = Inr () \<and> fst (stage1 env_alt) = Inr False \<and>
   fst (stage2 env_alt) = Inr False \<and> fst (stage3 env_alt) = Inr True \<and>
   invoked ''copy_to_path'' (trace (snd (run env_alt))) = 1 \<and>
   last (trace (snd (run env_alt))) = Enter ''copy_to_path''"
proof -
  have p: "fst (constructed env_present) = Inr ()" by (simp add: constructed_present)
  have m: "fst (constructed env_matched) = Inr ()" by (simp add: constructed_matched_env)
  from distribute_only_after_download[OF p] stage1_present
  have "fst (run env_present) = Inr () \<and> http_gets (trace (snd (run env_present))) = []"
    by blast
  moreover from distribute_only_after_download[OF m] stage1_matched stage2_matched
  have "invoked ''copy_to_path'' (trace (snd (run env_matched))) = 1 \<and>
     last (trace (snd (run env_matched))) = Enter ''copy_to_path''"
    by blast
  moreover from distribute_only_after_download[OF stages_alt(1)] stages_alt(2,3,4)
  have "invoked ''copy_to_path'' (trace (snd (run env_alt))) = 1 \<and>
     last (trace (snd (run env_alt))) = Enter ''copy_to_path''"
    by blast
  ultimately show ?thesis
    using p m stage1_present stage1_matched stage2_matched stages_alt by blast
qed

subsection \<open>Claim C6\<close>

text \<open>
  C6 fails as stated: in \<open>env_none\<close> the three stages fail, the block reaches \<^verbatim>\<open>exit()\<close>,
  which raises \<^verbatim>\<open>SystemExit(None)\<close>, and the exit status of the process is 0.
\<close>

theorem exhausted_run_exits_zero:
  "fst (constructed env_none) = Inr () \<and> fst (stage1 env_none) = Inr False \<and>
   fst (stage2 env_none) = Inr False \<and> fst (stage3 env_none) = Inr False \<and>
   fst (run env_none) = Inl (SystemExit None) \<and> exit_status (fst (run env_none)) = 0"
  using stages_none by (simp add: run_exhausted[OF stages_none])

text \<open>
  C6, amended. On a constructed object: when the three stages fail, the run logs, calls
  \<^verbatim>\<open>send_mail\<close> and ends in \<^verbatim>\<open>exit()\<close>, before the last log line, with exit status 0; when
  the smoke test on the driver already there succeeds, the run ends normally after the
  last log line, with exit status 0 and without a call of \<^verbatim>\<open>copy_to_path\<close>.
\<close>

theorem exhausted_run_exits_like_success:
  assumes "fst (constructed env) = Inr ()"
  shows "(fst (stage1 env) = Inr False \<and> fst (stage2 env) = Inr False \<and>
        fst (stage3 env) = Inr False \<longrightarrow>
       run env = (Inl (SystemExit None),
           (snd (stage3 env))\<lparr>trace := trace (snd (stage3 env)) @ gave_up\<rparr>) \<and>
       exit_status (fst (run env)) = 0) \<and>
    (fst (stage1 env) = Inr True \<longrightarrow>
       run env = (Inr (), (snd (stage1 env))\<lparr>trace := trace (snd (stage1 env)) @
           logs ''Driver working, all right'' [] ''debug''\<rparr>) \<and>
       exit_status (fst (run env)) = 0 \<and>
       invoked ''copy_to_path'' (trace (snd (run env))) = 0)"
proof (intro conjI impI)
  assume a: "fst (stage1 env) = Inr False \<and> fst (stage2 env) = Inr False \<and>
        fst (stage3 env) = Inr False"
  then have r: "run env = (Inl (SystemExit None),
           (snd (stage3 env))\<lparr>trace := trace (snd (stage3 env)) @ gave_up\<rparr>)"
    by (intro run_exhausted[OF assms]) simp_all
  then show "run env = (Inl (SystemExit None),
           (snd (stage3 env))\<lparr>trace := trace (snd (stage3 env)) @ gave_up\<rparr>)" .
  from r show "exit_status (fst (run env)) = 0" by simp
next
  assume a: "fst (stage1 env) = Inr True"
  from run_stage1[OF assms a]
  show r: "run env = (Inr (), (snd (stage1 env))\<lparr>trace := trace (snd (stage1 env)) @
           logs ''Driver working, all right'' [] ''debug''\<rparr>)" .
  then show "exit_status (fst (run env)) = 0" by simp
  from run_stage1_quiet[OF assms a]
  show "invoked ''copy_to_path'' (trace (snd (run env))) = 0" by simp
qed

theorem exhausted_run_exits_like_success_witness:
  "fst (constructed env_none) = Inr () \<and> fst (stage1 env_none) = Inr False \<and>
   fst (stage2 env_none) = Inr False \<and> fst (stage3 env_none) = Inr False \<and>
   fst (run env_none) = Inl (SystemExit None) \<and> exit_status (fst (run env_none)) = 0 \<and>
   fst (constructed env_present) = Inr () \<and> fst (stage1 env_present) = Inr True \<and>
   fst (run env_present) = Inr () \<and> exit_status (fst (run env_present)) = 0"
proof -
  have p: "fst (constructed env_present) = Inr ()" by (simp add: constructed_present)
  from exhausted_run_exits_like_success[OF stages_none(1)] stages_none(2,3,4)
  have "run env_none = (Inl (SystemExit None),
           (snd (stage3 env_none))\<lparr>trace := trace (snd (stage3 env_none)) @ gave_up\<rparr>) \<and>
       exit_status (fst (run env_none)) = 0" by blast
  then have n: "fst (run env_none) = Inl (SystemExit None) \<and> exit_status (fst (run env_none)) = 0"
    by simp
  from exhausted_run_exits_like_success[OF p] stage1_present
  have "run env_present = (Inr (), (snd (stage1 env_present))\<lparr>trace := trace (snd (stage1 env_present)) @
           logs ''Driver working, all right'' [] ''debug''\<rparr>) \<and>
       exit_status (fst (run env_present)) = 0" by blast
  then have "fst (run env_present) = Inr () \<and> exit_status (fst (run env_present)) = 0"
    by simp
  with n p stage1_present stages_none show ?thesis by blast
qed

subsection \<open>Claim C7\<close>

lemma invoked_init_trace: "invoked ''send_mail'' (init_trace v os_type) = 0"
  by (simp add: init_trace_def init_tr1_def init_tr0_def banner_def invoked_def logs_def)

lemma trace_constructed:
  assumes "fst (constructed env) = Inr ()"
  shows "\<exists>v. trace (snd (constructed env)) = init_trace v ''win64''"
proof -
  from assms have "fst (init env ''win64'' fresh) = Inr ()" by (simp add: constructed_def)
  then obtain v kvs where "winreg_version env init_tr0 = Inr v"
    and "json_load env init_tr1 properties_path = Inr (PDict kvs)" by (rule init_success)
  from init_ok[OF this, of "''win64''"]
  have "trace (snd (constructed env)) = init_trace v ''win64''" by (simp add: constructed_def)
  then show ?thesis by blast
qed

lemma step_scanned:
  assumes "scan env (emit (Enter ''try_another_version'') (snd (stage2 env))) = (Inr cs, w1)"
  shows "step {''url''} {KEnter ''test'', KLog, KDriver, KEnter ''download'', KHttp, KZip,
      KEnter ''try_another_version''} (snd (constructed env)) (snd (stage3 env))"
proof -
  let ?S = "{KEnter ''test'', KLog, KDriver, KEnter ''download'', KHttp, KZip,
      KEnter ''try_another_version''}"
  let ?I = "step {''url''} ?S (snd (constructed env))"
  have "?I (snd (stage1 env))"
    unfolding stage1_def by (rule preservesE[OF preserves_test step_refl]) simp
  then have "?I (snd (matched env))"
    unfolding matched_def by (rule preservesE[OF preserves_download, rotated]) simp
  then have "?I (snd (stage2 env))"
    unfolding stage2_def by (rule preservesE[OF preserves_test, rotated]) simp
  then have "?I (emit (Enter ''try_another_version'') (snd (stage2 env)))"
    by (intro step_emit) simp_all
  then have "?I (snd (scan env (emit (Enter ''try_another_version'') (snd (stage2 env)))))"
    by (rule preservesE[OF preserves_scan, rotated]) simp
  with assms have w1: "?I w1" by simp
  have "preserves ?I (attempt env obj)" for obj
    by (rule preserves_attempt) simp_all
  then have "preserves ?I (try_loop env cs)" by (rule preserves_try_loop)
  from preservesE[OF this w1] show ?thesis
    by (simp add: stage3_def try_another_version_scanned[OF assms])
qed

lemma scanned_no_send_mail:
  assumes "fst (constructed env) = Inr ()"
    and "scan env (emit (Enter ''try_another_version'') (snd (stage2 env))) = (Inr cs, w1)"
  shows "invoked ''send_mail'' (trace (snd (stage3 env))) = 0"
proof -
  from trace_constructed[OF assms(1)] obtain v
    where c: "trace (snd (constructed env)) = init_trace v ''win64''" by blast
  from step_scanned[OF assms(2)] obtain evs
    where t: "trace (snd (stage3 env)) = trace (snd (constructed env)) @ evs"
      and k: "kind_of ` set evs \<subseteq> {KEnter ''test'', KLog, KDriver, KEnter ''download'', KHttp, KZip,
      KEnter ''try_another_version''}"
    unfolding step_def by blast
  from k have "invoked ''send_mail'' evs = 0" by (rule invoked_kinds) simp
  with t c show ?thesis by (simp add: invoked_append invoked_init_trace)
qed

text \<open>
  C7. On a constructed object whose first two stages failed and whose scan of the index
  returned the candidates \<open>cs\<close>, none of which succeeds (there may be none):
  \<^verbatim>\<open>try_another_version\<close> returns false and the whole run enters \<^verbatim>\<open>send_mail\<close> exactly once,
  as the claim has it. But the run makes no call of the mail library: the one
  \<^verbatim>\<open>send_mail\<close> fails on \<^verbatim>\<open>self.token_mail\<close>, which nothing assigns, and the operator gets
  no email.
\<close>

theorem exhaustion_sends_no_mail:
  assumes "fst (constructed env) = Inr ()"
    and "fst (stage1 env) = Inr False" and "fst (stage2 env) = Inr False"
    and "scan env (emit (Enter ''try_another_version'') (snd (stage2 env))) = (Inr cs, w1)"
    and "fst (try_loop env cs w1) = Inr False"
  shows "fst (stage3 env) = Inr False \<and>
    invoked ''send_mail'' (trace (snd (run env))) = 1 \<and>
    mail_calls (trace (snd (run env))) = [] \<and>
    trace (snd (run env)) = trace (snd (stage3 env)) @ gave_up"
proof -
  from assms(5) have s3: "fst (stage3 env) = Inr False"
    by (simp add: stage3_def try_another_version_scanned[OF assms(4)])
  from run_exhausted[OF assms(1,2,3) s3]
  have t: "trace (snd (run env)) = trace (snd (stage3 env)) @ gave_up" by simp
  with scanned_no_send_mail[OF assms(1,4)]
  have "invoked ''send_mail'' (trace (snd (run env))) = 1"
    by (simp add: invoked_append invoked_gave_up)
  with s3 t run_no_mail[of env] show ?thesis by simp
qed

theorem exhaustion_sends_no_mail_witness:
  "fst (constructed env_none) = Inr () \<and> fst (stage1 env_none) = Inr False \<and>
   fst (stage2 env_none) = Inr False \<and>
   fst (scan env_none (emit (Enter ''try_another_version'') (snd (stage2 env_none)))) =
     Inr [entry_of ''103.0.1264.44/edgedriver_win64.zip'',
          entry_of ''103.0.1264.49/edgedriver_win64.zip'',
          entry_of ''103.0.1264.62/edgedriver_win64.zip''] \<and>
   fst (stage3 env_none) = Inr False \<and>
   invoked ''send_mail'' (trace (snd (run env_none))) = 1 \<and>
   mail_calls (trace (snd (run env_none))) = []"
proof -
  let ?w = "emit (Enter ''try_another_version'') (snd (stage2 env_none))"
  let ?cs = "[entry_of ''103.0.1264.44/edgedriver_win64.zip'',
           entry_of ''103.0.1264.49/edgedriver_win64.zip'',
           entry_of ''103.0.1264.62/edgedriver_win64.zip'']"
  have "attrs ?w = attrs (snd (constructed env_none))" by (simp add: emit_def stage_attrs)
  from scan_none[OF this] obtain w1 where s: "scan env_none ?w = (Inr ?cs, w1)" by blast
  have l: "fst (try_loop env_none ?cs w1) = Inr False"
    by (rule try_loop_never_starts[OF test_none]) (simp add: entry_of_def)
  from exhaustion_sends_no_mail[OF stages_none(1,2,3) s l]
  have "invoked ''send_mail'' (trace (snd (run env_none))) = 1 \<and>
     mail_calls (trace (snd (run env_none))) = []" by blast
  with s stages_none show ?thesis by simp
qed

subsection \<open>Claim C5\<close>

lemma scan_parse_failed:
  assumes "attrs w ''BASE_URL'' = Some b"
    and "requests_get env (trace w @ scan_started) b = Inr res"
    and "xmltodict_parse env (body_text res) = Inl msg"
  shows "scan env w = (Inl (EnvError msg), w\<lparr>trace := trace w @ scan_started @ [HttpGet b]\<rparr>)"
  unfolding scan_def
  by (simp add: sbind_print_and_log sbind_getattr_set assms sbind_extern sbind_lift
      scan_started_def[symmetric])

lemma scan_request_failed:
  assumes "attrs w ''BASE_URL'' = Some b"
    and "requests_get env (trace w @ scan_started) b = Inl msg"
  shows "scan env w = (Inl (EnvError msg), w\<lparr>trace := trace w @ scan_started @ [HttpGet b]\<rparr>)"
  unfolding scan_def
  by (simp add: sbind_print_and_log sbind_getattr_set assms sbind_extern
      scan_started_def[symmetric])

lemma run_no_version:
  assumes "winreg_version env init_tr0 = Inl msg"
  shows "run env = (Inl (EnvError msg), \<lparr>attrs = Map.empty, trace = init_tr0 @ [RegQuery]\<rparr>)"
proof -
  from init_no_version[OF assms, of "''win64''"]
  have "fst (constructed env) = Inl (EnvError msg)"
    and "snd (constructed env) = \<lparr>attrs = Map.empty, trace = init_tr0 @ [RegQuery]\<rparr>"
    by (simp_all add: constructed_def)
  with run_unconstructed[of env "EnvError msg"] show ?thesis by simp
qed

lemma run_no_properties:
  assumes "winreg_version env init_tr0 = Inr v"
    and "json_load env init_tr1 properties_path = Inl msg"
  shows "run env =
    (Inl (AttributeError ''get''), \<lparr>attrs = early_attrs v ''win64'', trace = no_properties_trace\<rparr>)"
proof -
  from init_no_properties[OF assms, of "''win64''"]
  have "fst (constructed env) = Inl (AttributeError ''get'')"
    and "snd (constructed env) = \<lparr>attrs = early_attrs v ''win64'', trace = no_properties_trace\<rparr>"
    by (simp_all add: constructed_def)
  with run_unconstructed[of env "AttributeError ''get''"] show ?thesis by simp
qed

lemma invoked_no_properties_trace:
  "invoked ''send_mail'' no_properties_trace = 1" "mail_calls no_properties_trace = []"
  by (simp_all add: no_properties_trace_def init_tr1_def init_tr0_def invoked_def mail_calls_def
      logs_def handler_logs_def)

lemma invoked_no_version_trace:
  "invoked ''send_mail'' (init_tr0 @ [RegQuery]) = 0"
  by (simp add: init_tr0_def invoked_def)

lemma test_launch_failed:
  assumes "attrs w ''DRIVER_NAME'' = Some d"
    and "webdriver_Edge env (trace w @ test_started) d = Inl msg"
  shows "fst (test env w) = Inr False"
  by (simp add: test_eq[OF assms(1)] assms(2))

lemma download_request_failed:
  assumes "attrs w ''url'' = Some u"
    and "requests_get env (trace w @ download_started u) u = Inl msg"
  shows "fst (download env w) = Inr False"
  by (simp add: download_eq[OF assms(1)] assms(2))

lemma download_extract_failed:
  assumes "attrs w ''url'' = Some u"
    and "requests_get env (trace w @ download_started u) u = Inr r" and "status_code r = 200"
    and "extractall env (trace w @ download_started u @ [HttpGet u]) (content r) = Inl msg"
  shows "fst (download env w) = Inr False"
  by (simp add: download_eq[OF assms(1)] assms(2,3,4))

lemma run_outcomes:
  assumes "fst (constructed env) = Inr ()"
    and "invoked ''copy_to_path'' (trace (snd (run env))) = 0"
  shows "fst (run env) = Inr () \<or> fst (run env) = Inl (SystemExit None)"
proof -
  from stage_returns[of env] obtain b1 b2 b3 where s: "fst (stage1 env) = Inr b1"
    "fst (stage2 env) = Inr b2" "fst (stage3 env) = Inr b3" by blast
  show ?thesis
  proof (cases b1)
    case True
    with run_stage1[OF assms(1)] s(1) show ?thesis by simp
  next
    case b1: False
    show ?thesis
    proof (cases b2)
      case True
      with run_stage2_copies[OF assms(1)] s(1,2) b1 assms(2) show ?thesis by simp
    next
      case b2: False
      show ?thesis
      proof (cases b3)
        case True
        with run_stage3_copies[OF assms(1)] s b1 b2 assms(2) show ?thesis by simp
      next
        case False
        with run_exhausted[OF assms(1)] s b1 b2 show ?thesis by simp
      qed
    qed
  qed
qed

text \<open>
  C5 fails as stated: when the registry has no Edge key, \<^verbatim>\<open>_get_edge_version\<close> raises, the
  constructor and the process end with that exception, and \<^verbatim>\<open>send_mail\<close> was never
  called: nothing tried to notify the operator.
\<close>

theorem version_detection_crash_unnotified:
  "fst (run env_noreg) = Inl (EnvError ''FileNotFoundError'') \<and>
   exit_status (fst (run env_noreg)) = 1 \<and>
   invoked ''send_mail'' (trace (snd (run env_noreg))) = 0 \<and>
   mail_calls (trace (snd (run env_noreg))) = []"
proof -
  have "winreg_version env_noreg init_tr0 = Inl ''FileNotFoundError''"
    by (simp add: env_noreg_def)
  from run_no_version[OF this] show ?thesis
    by (simp add: invoked_def mail_calls_def init_tr0_def)
qed

text \<open>
  C5, amended. When the version detection raises, the exception leaves the constructor
  and ends the process, and \<^verbatim>\<open>send_mail\<close> is not called. When loading the properties
  raises, \<^verbatim>\<open>import_data\<close> catches it, logs, calls \<^verbatim>\<open>send_mail\<close> once (which makes no call of
  the mail library) and returns \<^verbatim>\<open>None\<close>, on which the constructor raises
  \<^verbatim>\<open>AttributeError\<close> and ends the process. \<^verbatim>\<open>test\<close>, \<^verbatim>\<open>try_another_version\<close> and \<^verbatim>\<open>send_mail\<close>
  return in every state, and \<^verbatim>\<open>download\<close> wherever \<^verbatim>\<open>self.url\<close> is set; a launch that
  raises, a request that raises, an archive that does not extract and an index that
  cannot be fetched or parsed give false. A run on a constructed object that never
  calls \<^verbatim>\<open>copy_to_path\<close> ends normally or in \<^verbatim>\<open>exit()\<close>.
\<close>

theorem crashes_and_caught_errors:
  "(winreg_version env init_tr0 = Inl msg1 \<longrightarrow>
      run env = (Inl (EnvError msg1), \<lparr>attrs = Map.empty, trace = init_tr0 @ [RegQuery]\<rparr>) \<and>
      exit_status (fst (run env)) = 1 \<and>
      invoked ''send_mail'' (trace (snd (run env))) = 0) \<and>
   (winreg_version env init_tr0 = Inr v \<and> json_load env init_tr1 properties_path = Inl msg2 \<longrightarrow>
      run env = (Inl (AttributeError ''get''),
        \<lparr>attrs = early_attrs v ''win64'', trace = no_properties_trace\<rparr>) \<and>
      exit_status (fst (run env)) = 1 \<and>
      invoked ''send_mail'' (trace (snd (run env))) = 1 \<and>
      mail_calls (trace (snd (run env))) = []) \<and>
   (\<exists>b. fst (test env w) = Inr b) \<and>
   (attrs w ''url'' \<noteq> None \<longrightarrow> (\<exists>b. fst (download env w) = Inr b)) \<and>
   (\<exists>b. fst (try_another_version env w) = Inr b) \<and>
   fst (send_mail env message margs subject w) = Inr () \<and>
   (attrs w ''DRIVER_NAME'' = Some d \<and>
      webdriver_Edge env (trace w @ test_started) d = Inl msg3 \<longrightarrow>
      fst (test env w) = Inr False) \<and>
   (attrs w ''url'' = Some u \<and>
      requests_get env (trace w @ download_started u) u = Inl msg4 \<longrightarrow>
      fst (download env w) = Inr False) \<and>
   (attrs w ''url'' = Some u \<and>
      requests_get env (trace w @ download_started u) u = Inr r \<and> status_code r = 200 \<and>
      extractall env (trace w @ download_started u @ [HttpGet u]) (content r) = Inl msg5 \<longrightarrow>
      fst (download env w) = Inr False) \<and>
   (scan env (emit (Enter ''try_another_version'') w) = (Inl e, w1) \<longrightarrow>
      fst (try_another_version env w) = Inr False) \<and>
   (fst (constructed env) = Inr () \<and> invoked ''copy_to_path'' (trace (snd (run env))) = 0 \<longrightarrow>
      fst (run env) = Inr () \<or> fst (run env) = Inl (SystemExit None))"
proof (intro conjI impI)
  assume a: "winreg_version env init_tr0 = Inl msg1"
  from run_no_version[OF a]
  show r: "run env = (Inl (EnvError msg1), \<lparr>attrs = Map.empty, trace = init_tr0 @ [RegQuery]\<rparr>)" .
  from r show "exit_status (fst (run env)) = 1" by simp
  from r show "invoked ''send_mail'' (trace (snd (run env))) = 0"
    by (simp add: invoked_no_version_trace)
next
  assume a: "winreg_version env init_tr0 = Inr v \<and> json_load env init_tr1 properties_path = Inl msg2"
  then have "winreg_version env init_tr0 = Inr v"
    and "json_load env init_tr1 properties_path = Inl msg2" by simp_all
  from run_no_properties[OF this]
  show r: "run env = (Inl (AttributeError ''get''),
        \<lparr>attrs = early_attrs v ''win64'', trace = no_properties_trace\<rparr>)" .
  from r show "exit_status (fst (run env)) = 1" by simp
  from r show "invoked ''send_mail'' (trace (snd (run env))) = 1"
    by (simp add: invoked_no_properties_trace)
  from r show "mail_calls (trace (snd (run env))) = []"
    by (simp add: invoked_no_properties_trace)
next
  from test_returns[of env w] show "\<exists>b. fst (test env w) = Inr b" by auto
next
  assume "attrs w ''url'' \<noteq> None"
  from download_returns[OF this, of env] show "\<exists>b. fst (download env w) = Inr b" by auto
next
  from try_another_version_returns[of env w]
  show "\<exists>b. fst (try_another_version env w) = Inr b" by auto
next
  from send_mail_returns[of env message margs subject w]
  show "fst (send_mail env message margs subject w) = Inr ()" by auto
next
  assume "attrs w ''DRIVER_NAME'' = Some d \<and>
      webdriver_Edge env (trace w @ test_started) d = Inl msg3"
  then show "fst (test env w) = Inr False" by (auto intro: test_launch_failed)
next
  assume "attrs w ''url'' = Some u \<and>
      requests_get env (trace w @ download_started u) u = Inl msg4"
  then show "fst (download env w) = Inr False" by (auto intro: download_request_failed)
next
  assume "attrs w ''url'' = Some u \<and>
      requests_get env (trace w @ download_started u) u = Inr r \<and> status_code r = 200 \<and>
      extractall env (trace w @ download_started u @ [HttpGet u]) (content r) = Inl msg5"
  then show "fst (download env w) = Inr False" by (auto intro: download_extract_failed)
next
  assume "scan env (emit (Enter ''try_another_version'') w) = (Inl e, w1)"
  then show "fst (try_another_version env w) = Inr False"
    by (simp add: try_another_version_scan_failed)
next
  assume "fst (constructed env) = Inr () \<and> invoked ''copy_to_path'' (trace (snd (run env))) = 0"
  then have "fst (constructed env) = Inr ()"
    and "invoked ''copy_to_path'' (trace (snd (run env))) = 0" by simp_all
  then show "fst (run env) = Inr () \<or> fst (run env) = Inl (SystemExit None)"
    by (rule run_outcomes)
qed

theorem crashes_and_caught_errors_witness:
  "fst (run env_noreg) = Inl (EnvError ''FileNotFoundError'') \<and>
   invoked ''send_mail'' (trace (snd (run env_noreg))) = 0 \<and>
   fst (run env_noprops) = Inl (AttributeError ''get'') \<and>
   invoked ''send_mail'' (trace (snd (run env_noprops))) = 1 \<and>
   mail_calls (trace (snd (run env_noprops))) = [] \<and>
   fst (test env_none (snd (constructed env_none))) = Inr False \<and>
   fst (download env_offline w_url) = Inr False \<and>
   fst (download env_badzip w_url) = Inr False \<and>
   fst (try_another_version env_present (snd (constructed env_present))) = Inr False \<and>
   fst (try_another_version env_offline (snd (constructed env_present))) = Inr False \<and>
   fst (run env_present) = Inr ()"
proof -
  let ?u = "PStr ''https://store/103.0.1264.37/edgedriver_win64.zip''"
  let ?d = "PStr ''msedgedriver.exe''"
  let ?p = "snd (constructed env_present)"
  let ?n = "snd (constructed env_none)"
  note t = crashes_and_caught_errors
  have "winreg_version env_noreg init_tr0 = Inl ''FileNotFoundError''"
    by (simp add: env_noreg_def)
  with t[of env_noreg "''FileNotFoundError''"]
  have "run env_noreg = (Inl (EnvError ''FileNotFoundError''),
        \<lparr>attrs = Map.empty, trace = init_tr0 @ [RegQuery]\<rparr>) \<and>
      invoked ''send_mail'' (trace (snd (run env_noreg))) = 0" by blast
  then have c1: "fst (run env_noreg) = Inl (EnvError ''FileNotFoundError'') \<and>
      invoked ''send_mail'' (trace (snd (run env_noreg))) = 0" by (metis fst_conv)
  have "winreg_version env_noprops init_tr0 = Inr ''103.0.1264.37''"
    and "json_load env_noprops init_tr1 properties_path = Inl ''No such file or directory''"
    by (simp_all add: env_noprops_def env_present_def)
  with t[of env_noprops _ "''103.0.1264.37''" "''No such file or directory''"]
  have "run env_noprops = (Inl (AttributeError ''get''),
        \<lparr>attrs = early_attrs ''103.0.1264.37'' ''win64'', trace = no_properties_trace\<rparr>) \<and>
      invoked ''send_mail'' (trace (snd (run env_noprops))) = 1 \<and>
      mail_calls (trace (snd (run env_noprops))) = []" by blast
  then have c2: "fst (run env_noprops) = Inl (AttributeError ''get'') \<and>
      invoked ''send_mail'' (trace (snd (run env_noprops))) = 1 \<and>
      mail_calls (trace (snd (run env_noprops))) = []" by (metis fst_conv)
  have "attrs ?n ''DRIVER_NAME'' = Some ?d"
    by (rule attrs_constructed_none)
  moreover have "webdriver_Edge env_none (trace ?n @ test_started) ?d = Inl ''cannot start''"
    by (simp add: env_none_def)
  ultimately have "attrs ?n ''DRIVER_NAME'' = Some ?d \<and>
      webdriver_Edge env_none (trace ?n @ test_started) ?d = Inl ''cannot start''" by blast
  with t[of env_none _ _ _ ?n _ _ _ ?d "''cannot start''"]
  have c3: "fst (test env_none ?n) = Inr False" by blast
  have u: "attrs w_url ''url'' = Some ?u" by (simp add: w_url_def)
  have "requests_get env_offline (trace w_url @ download_started ?u) ?u = Inl ''ConnectionError''"
    by (simp add: env_offline_def)
  with t[of env_offline _ _ _ w_url _ _ _ _ _ ?u "''ConnectionError''"] u
  have c4: "fst (download env_offline w_url) = Inr False" by blast
  have "requests_get env_badzip (trace w_url @ download_started ?u) ?u = Inr (archive ''driver'')"
    and "status_code (archive ''driver'') = 200"
    and "extractall env_badzip (trace w_url @ download_started ?u @ [HttpGet ?u])
        (content (archive ''driver'')) = Inl ''BadZipFile''"
    by (simp_all add: env_badzip_def env_matched_def env_present_def archive_def)
  with t[of env_badzip _ _ _ w_url _ _ _ _ _ ?u _ "archive ''driver''" "''BadZipFile''"] u
  have c5: "fst (download env_badzip w_url) = Inr False" by blast
  let ?w = "emit (Enter ''try_another_version'') ?p"
  have b: "attrs ?w ''BASE_URL'' = Some (PStr ''https://index'')"
    by (simp add: emit_def constructed_present init_attrs_BASE_URL prop_of_kvs0)
  have "requests_get env_present (trace ?w @ scan_started) (PStr ''https://index'') = Inr not_found"
    and "xmltodict_parse env_present (body_text not_found) = Inl ''syntax error''"
    by (simp_all add: env_present_def)
  from scan_parse_failed[OF b this] t[of env_present _ _ _ ?p]
  have c6: "fst (try_another_version env_present ?p) = Inr False" by blast
  have "requests_get env_offline (trace ?w @ scan_started) (PStr ''https://index'') =
      Inl ''ConnectionError''"
    by (simp add: env_offline_def)
  from scan_request_failed[OF b this] t[of env_offline _ _ _ ?p]
  have c7: "fst (try_another_version env_offline ?p) = Inr False" by blast
  have "fst (constructed env_present) = Inr ()" by (simp add: constructed_present)
  from run_stage1_quiet[OF this stage1_present]
  have c8: "fst (run env_present) = Inr ()" by simp
  from c1 c2 c3 c4 c5 c6 c7 c8 show ?thesis by blast
qed

end
